theory Spec2Isabelle
  imports Complex_Main "HOL-Library.Word"
begin

unbundle bit_operations_syntax

section \<open>Common types\<close>

text \<open>
  \<open>size_t\<close> is the 64-bit unsigned integer of the target, \<open>unsigned int\<close> the 32-bit one;
  both wrap around. A C++ exception is a \<open>RuntimeError\<close> with its message, a failed
  \<open>assert\<close> is \<open>AssertionFailed\<close>, and an access the language leaves undefined (a vector
  read or written outside its bounds, a division by zero) is \<open>UndefinedBehaviour\<close>.
  A call of \<open>abort()\<close> is \<open>Aborted\<close>.
\<close>

type_synonym size_t = "64 word"
type_synonym uint = "32 word"

datatype error = RuntimeError string | AssertionFailed | UndefinedBehaviour | Aborted

definition ebind :: "error + 'a \<Rightarrow> ('a \<Rightarrow> error + 'b) \<Rightarrow> error + 'b" where
  "ebind m f = (case m of Inl e \<Rightarrow> Inl e | Inr x \<Rightarrow> f x)"

definition vector_at :: "'a list \<Rightarrow> nat \<Rightarrow> error + 'a" where
  \<comment> \<open>\<open>v[i]\<close> on a \<open>std::vector\<close>\<close>
  "vector_at v i = (if i < length v then Inr (v ! i) else Inl UndefinedBehaviour)"

definition vector_back :: "'a list \<Rightarrow> error + 'a" where
  \<comment> \<open>\<open>v.back()\<close>\<close>
  "vector_back v = (if v = [] then Inl UndefinedBehaviour else Inr (last v))"

section \<open>Test parameters: \<open>clients/client_utils.h\<close>, class \<open>fft_params\<close>\<close>

datatype rocfft_precision = rocfft_precision_single | rocfft_precision_double

datatype rocfft_array_type =
    rocfft_array_type_complex_interleaved
  | rocfft_array_type_complex_planar
  | rocfft_array_type_real
  | rocfft_array_type_hermitian_interleaved
  | rocfft_array_type_hermitian_planar
  | rocfft_array_type_unset

datatype rocfft_transform_type =
    rocfft_transform_type_complex_forward
  | rocfft_transform_type_complex_inverse
  | rocfft_transform_type_real_forward
  | rocfft_transform_type_real_inverse

datatype rocfft_result_placement = rocfft_placement_inplace | rocfft_placement_notinplace

definition var_size :: "rocfft_precision \<Rightarrow> rocfft_array_type \<Rightarrow> size_t" where
  "var_size precision type =
     (let var_size = (case precision of
                        rocfft_precision_single \<Rightarrow> 4
                      | rocfft_precision_double \<Rightarrow> 8)
      in case type of
           rocfft_array_type_complex_interleaved \<Rightarrow> var_size * 2
         | rocfft_array_type_hermitian_interleaved \<Rightarrow> var_size * 2
         | _ \<Rightarrow> var_size)"

text \<open>The field \<open>length\<close> of the class is \<open>length_v\<close> here, the name being taken by lists.\<close>

record fft_params =
  length_v :: "size_t list"
  istride :: "size_t list"
  ostride :: "size_t list"
  nbatch :: size_t
  precision :: rocfft_precision
  transform_type :: rocfft_transform_type
  placement :: rocfft_result_placement
  idist :: size_t
  odist :: size_t
  itype :: rocfft_array_type
  otype :: rocfft_array_type
  ioffset :: "size_t list"
  ooffset :: "size_t list"
  isize :: "size_t list"
  osize :: "size_t list"

definition dim :: "fft_params \<Rightarrow> nat" where
  "dim p = length (length_v p)"

definition ilength :: "fft_params \<Rightarrow> error + size_t list" where
  "ilength p =
     (let il = length_v p in
      if transform_type p = rocfft_transform_type_real_inverse then
        (if dim p = 0 then Inl UndefinedBehaviour
         else Inr (il[dim p - 1 := il ! (dim p - 1) div 2 + 1]))
      else Inr il)"

definition olength :: "fft_params \<Rightarrow> error + size_t list" where
  "olength p =
     (let ol = length_v p in
      if transform_type p = rocfft_transform_type_real_forward then
        (if dim p = 0 then Inl UndefinedBehaviour
         else Inr (ol[dim p - 1 := ol ! (dim p - 1) div 2 + 1]))
      else Inr ol)"

fun nbuffer :: "rocfft_array_type \<Rightarrow> nat" where
  "nbuffer rocfft_array_type_real = 1"
| "nbuffer rocfft_array_type_complex_interleaved = 1"
| "nbuffer rocfft_array_type_hermitian_interleaved = 1"
| "nbuffer rocfft_array_type_complex_planar = 2"
| "nbuffer rocfft_array_type_hermitian_planar = 2"
| "nbuffer rocfft_array_type_unset = 0"

definition nibuffer :: "fft_params \<Rightarrow> nat" where
  "nibuffer p = nbuffer (itype p)"

definition nobuffer :: "fft_params \<Rightarrow> nat" where
  "nobuffer p = nbuffer (otype p)"

text \<open>\<open>compute_ptrdiff\<close>: the loop over \<open>i\<close> with the running value \<open>val\<close>.\<close>

fun ptrdiff_loop :: "size_t list \<Rightarrow> size_t list \<Rightarrow> nat \<Rightarrow> nat \<Rightarrow> size_t \<Rightarrow> error + size_t" where
  "ptrdiff_loop len stride i 0 val = Inr val"
| "ptrdiff_loop len stride i (Suc n) val =
     ebind (vector_at stride i) (\<lambda>s. ptrdiff_loop len stride (Suc i) n (val + (len ! i - 1) * s))"

definition compute_ptrdiff :: "size_t list \<Rightarrow> size_t list \<Rightarrow> size_t \<Rightarrow> size_t \<Rightarrow> error + size_t" where
  "compute_ptrdiff len stride nb dst =
     (if len \<noteq> [] then
        ebind (ptrdiff_loop len stride 0 (length len) 1) (\<lambda>val. Inr (val + (nb - 1) * dst))
      else Inr 0)"

definition set_iotypes :: "fft_params \<Rightarrow> fft_params" where
  \<comment> \<open>the \<open>default:\<close> branches throw for a value outside the enumeration, which the type excludes\<close>
  "set_iotypes p =
     (let p1 = (if itype p = rocfft_array_type_unset then
                  p\<lparr>itype := (case transform_type p of
                        rocfft_transform_type_complex_forward \<Rightarrow> rocfft_array_type_complex_interleaved
                      | rocfft_transform_type_complex_inverse \<Rightarrow> rocfft_array_type_complex_interleaved
                      | rocfft_transform_type_real_forward \<Rightarrow> rocfft_array_type_real
                      | rocfft_transform_type_real_inverse \<Rightarrow> rocfft_array_type_hermitian_interleaved)\<rparr>
                else p)
      in if otype p1 = rocfft_array_type_unset then
           p1\<lparr>otype := (case transform_type p1 of
                 rocfft_transform_type_complex_forward \<Rightarrow> rocfft_array_type_complex_interleaved
               | rocfft_transform_type_complex_inverse \<Rightarrow> rocfft_array_type_complex_interleaved
               | rocfft_transform_type_real_forward \<Rightarrow> rocfft_array_type_hermitian_interleaved
               | rocfft_transform_type_real_inverse \<Rightarrow> rocfft_array_type_real)\<rparr>
         else p1)"

definition is_complex_type :: "rocfft_array_type \<Rightarrow> bool" where
  "is_complex_type t \<longleftrightarrow>
     t = rocfft_array_type_complex_interleaved \<or> t = rocfft_array_type_complex_planar"

definition is_hermitian_type :: "rocfft_array_type \<Rightarrow> bool" where
  "is_hermitian_type t \<longleftrightarrow>
     t = rocfft_array_type_hermitian_interleaved \<or> t = rocfft_array_type_hermitian_planar"

definition check_iotypes :: "fft_params \<Rightarrow> error + bool" where
  "check_iotypes p =
     (if itype p = rocfft_array_type_unset then
        Inl (RuntimeError ''Invalid Input array type format'')
      else if otype p = rocfft_array_type_unset then
        Inl (RuntimeError ''Invalid Input array type format'')
      else if transform_type p \<noteq> rocfft_transform_type_real_forward
            \<and> transform_type p \<noteq> rocfft_transform_type_real_inverse
            \<and> placement p = rocfft_placement_inplace \<and> itype p \<noteq> otype p then
        Inl (RuntimeError ''In-place transforms must have identical input and output types'')
      else if is_complex_type (itype p) then Inr (is_complex_type (otype p))
      else if is_hermitian_type (itype p) then Inr (otype p = rocfft_array_type_real)
      else Inr (is_hermitian_type (otype p)))"

text \<open>
  \<open>compute_stride\<close>. The loop \<open>for(int i = n; i-- > 0;)\<close> runs its body for
  \<open>i = n - 1, \<dots>, 0\<close>; \<open>stride_loop\<close> is that loop, started at \<open>n\<close>.
\<close>

fun stride_loop :: "size_t list \<Rightarrow> bool \<Rightarrow> nat \<Rightarrow> size_t list \<Rightarrow> size_t list" where
  "stride_loop len rcpadding 0 stride = stride"
| "stride_loop len rcpadding (Suc i) stride =
     (let lengthip1 = len ! (i + 1);
          lengthip1 = (if rcpadding \<and> i + 2 = length len
                       then 2 * (lengthip1 div 2 + 1) else lengthip1)
      in stride_loop len rcpadding i (stride[i := stride ! (i + 1) * lengthip1]))"

definition compute_stride :: "size_t list \<Rightarrow> size_t list \<Rightarrow> bool \<Rightarrow> error + size_t list" where
  "compute_stride len stride0 rcpadding =
     (let dim = length len;
          stride = replicate dim 0
      in if stride0 = [] then
           (if dim = 0 then Inl UndefinedBehaviour
            else Inr (stride_loop len rcpadding (dim - 1) (stride[dim - 1 := 1])))
         else if dim < length stride0 then Inl UndefinedBehaviour
         else
           (let stride = fold (\<lambda>i s. s[dim - length stride0 + i := stride0 ! i])
                              [0..<length stride0] stride
            in if length stride0 < dim
               then Inr (stride_loop len rcpadding (dim - length stride0) stride)
               else Inr stride))"

definition compute_istride :: "fft_params \<Rightarrow> error + fft_params" where
  "compute_istride p =
     ebind (ilength p) (\<lambda>il.
     ebind (compute_stride il (istride p)
              (placement p = rocfft_placement_inplace
               \<and> transform_type p = rocfft_transform_type_real_forward)) (\<lambda>s.
     Inr (p\<lparr>istride := s\<rparr>)))"

definition compute_ostride :: "fft_params \<Rightarrow> error + fft_params" where
  "compute_ostride p =
     ebind (olength p) (\<lambda>ol.
     ebind (compute_stride ol (ostride p)
              (placement p = rocfft_placement_inplace
               \<and> transform_type p = rocfft_transform_type_real_inverse)) (\<lambda>s.
     Inr (p\<lparr>ostride := s\<rparr>)))"

text \<open>
  The row-major rule in words, to compare \<open>compute_stride\<close> with: one stride per
  length, the last stride 1 and \<open>stride[i] = stride[i+1] * length[i+1]\<close> for every earlier
  one, the product being that of \<open>size_t\<close>. \<open>istride_lengths\<close> and \<open>ostride_lengths\<close> are
  the lengths the rule is applied to for the input and the output strides: the lengths
  of the request, with the last one, \<open>L\<close>, replaced by the number \<open>L / 2 + 1\<close> of complex
  values on the hermitian side of a real transform, and by \<open>2 * (L / 2 + 1)\<close> on the real
  side of an in-place real transform.
\<close>

definition row_major :: "size_t list \<Rightarrow> size_t list \<Rightarrow> bool" where
  "row_major len stride \<longleftrightarrow>
     length stride = length len \<and> stride \<noteq> [] \<and> last stride = 1
     \<and> (\<forall>i < length len - 1. stride ! i = stride ! (i + 1) * len ! (i + 1))"

definition istride_lengths :: "fft_params \<Rightarrow> size_t list" where
  "istride_lengths p =
     (let L = last (length_v p) in
      butlast (length_v p) @
        [if transform_type p = rocfft_transform_type_real_inverse then L div 2 + 1
         else if transform_type p = rocfft_transform_type_real_forward
                 \<and> placement p = rocfft_placement_inplace then 2 * (L div 2 + 1)
         else L])"

definition ostride_lengths :: "fft_params \<Rightarrow> size_t list" where
  "ostride_lengths p =
     (let L = last (length_v p) in
      butlast (length_v p) @
        [if transform_type p = rocfft_transform_type_real_forward then L div 2 + 1
         else if transform_type p = rocfft_transform_type_real_inverse
                 \<and> placement p = rocfft_placement_inplace then 2 * (L div 2 + 1)
         else L])"

text \<open>\<open>compute_isize\<close>, \<open>compute_osize\<close>: one size per buffer, \<open>val + offset[i]\<close>.\<close>

fun size_loop :: "size_t \<Rightarrow> size_t list \<Rightarrow> nat \<Rightarrow> nat \<Rightarrow> error + size_t list" where
  "size_loop val offset i 0 = Inr []"
| "size_loop val offset i (Suc n) =
     ebind (vector_at offset i) (\<lambda>off.
     ebind (size_loop val offset (Suc i) n) (\<lambda>rest. Inr ((val + off) # rest)))"

definition compute_isize :: "fft_params \<Rightarrow> error + fft_params" where
  "compute_isize p =
     ebind (ilength p) (\<lambda>il.
     ebind (compute_ptrdiff il (istride p) (nbatch p) (idist p)) (\<lambda>val.
     ebind (size_loop val (ioffset p) 0 (nibuffer p)) (\<lambda>sz.
     Inr (p\<lparr>isize := sz\<rparr>))))"

definition compute_osize :: "fft_params \<Rightarrow> error + fft_params" where
  "compute_osize p =
     ebind (olength p) (\<lambda>ol.
     ebind (compute_ptrdiff ol (ostride p) (nbatch p) (odist p)) (\<lambda>val.
     ebind (size_loop val (ooffset p) 0 (nobuffer p)) (\<lambda>sz.
     Inr (p\<lparr>osize := sz\<rparr>))))"

text \<open>\<open>ibuffer_sizes\<close>, \<open>obuffer_sizes\<close>: byte sizes, \<open>size[i] * var_size\<close> per buffer.\<close>

fun bytes_loop :: "size_t list \<Rightarrow> size_t \<Rightarrow> nat \<Rightarrow> nat \<Rightarrow> error + size_t list" where
  "bytes_loop sz vs i 0 = Inr []"
| "bytes_loop sz vs i (Suc n) =
     ebind (vector_at sz i) (\<lambda>s.
     ebind (bytes_loop sz vs (Suc i) n) (\<lambda>rest. Inr ((s * vs) # rest)))"

definition planar_count :: "rocfft_array_type \<Rightarrow> nat" where
  \<comment> \<open>the \<open>resize(2)\<close> / \<open>resize(1)\<close> switch of both functions\<close>
  "planar_count t =
     (case t of rocfft_array_type_complex_planar \<Rightarrow> 2
              | rocfft_array_type_hermitian_planar \<Rightarrow> 2
              | _ \<Rightarrow> 1)"

definition obuffer_sizes :: "fft_params \<Rightarrow> error + size_t list" where
  "obuffer_sizes p =
     (if osize p = [] then Inr []
      else bytes_loop (osize p) (var_size (precision p) (otype p)) 0 (planar_count (otype p)))"

definition ibuffer_sizes :: "fft_params \<Rightarrow> error + size_t list" where
  "ibuffer_sizes p =
     (if placement p = rocfft_placement_inplace
         \<and> transform_type p = rocfft_transform_type_real_forward
      then obuffer_sizes p
      else if isize p = [] then Inr []
      else bytes_loop (isize p) (var_size (precision p) (itype p)) 0 (planar_count (itype p)))"

text \<open>\<open>set_idist\<close>, \<open>set_odist\<close>: the running maximum over the leading dimensions.\<close>

fun dist_loop :: "size_t list \<Rightarrow> size_t list \<Rightarrow> nat \<Rightarrow> nat \<Rightarrow> size_t \<Rightarrow> error + size_t" where
  "dist_loop len stride i 0 d = Inr d"
| "dist_loop len stride i (Suc n) d =
     ebind (vector_at len i) (\<lambda>l.
     ebind (vector_at stride i) (\<lambda>s. dist_loop len stride (Suc i) n (max (l * s) d)))"

definition set_idist :: "fft_params \<Rightarrow> error + fft_params" where
  "set_idist p =
     (if idist p \<noteq> 0 then Inr p
      else
        let dim = length (length_v p) in
        if transform_type p = rocfft_transform_type_real_forward \<and> dim = 1
           \<and> placement p = rocfft_placement_inplace then
          ebind (vector_at (length_v p) 0) (\<lambda>l. ebind (vector_at (istride p) 0) (\<lambda>s.
            Inr (p\<lparr>idist := 2 * (l div 2 + 1) * s\<rparr>)))
        else if transform_type p = rocfft_transform_type_real_inverse \<and> dim = 1 then
          ebind (vector_at (length_v p) 0) (\<lambda>l. ebind (vector_at (istride p) 0) (\<lambda>s.
            Inr (p\<lparr>idist := (l div 2 + 1) * s\<rparr>)))
        else
          ebind (vector_at (length_v p) (dim - 1)) (\<lambda>l. ebind (vector_at (istride p) (dim - 1)) (\<lambda>s.
          ebind (dist_loop (length_v p) (istride p) 0 (dim - 1)
                   (if transform_type p = rocfft_transform_type_real_inverse
                    then (l div 2 + 1) * s else l * s)) (\<lambda>d.
            Inr (p\<lparr>idist := d\<rparr>)))))"

definition set_odist :: "fft_params \<Rightarrow> error + fft_params" where
  "set_odist p =
     (if odist p \<noteq> 0 then Inr p
      else
        let dim = length (length_v p) in
        if transform_type p = rocfft_transform_type_real_inverse \<and> dim = 1
           \<and> placement p = rocfft_placement_inplace then
          ebind (vector_at (length_v p) 0) (\<lambda>l. ebind (vector_at (ostride p) 0) (\<lambda>s.
            Inr (p\<lparr>odist := 2 * (l div 2 + 1) * s\<rparr>)))
        else if transform_type p = rocfft_transform_type_real_forward \<and> dim = 1 then
          ebind (vector_at (length_v p) 0) (\<lambda>l. ebind (vector_at (ostride p) 0) (\<lambda>s.
            Inr (p\<lparr>odist := (l div 2 + 1) * s\<rparr>)))
        else
          ebind (vector_at (length_v p) (dim - 1)) (\<lambda>l. ebind (vector_at (ostride p) (dim - 1)) (\<lambda>s.
          ebind (dist_loop (length_v p) (ostride p) 0 (dim - 1)
                   (if transform_type p = rocfft_transform_type_real_forward
                    then (l div 2 + 1) * s else l * s)) (\<lambda>d.
            Inr (p\<lparr>odist := d\<rparr>)))))"

definition validate :: "fft_params \<Rightarrow> error + fft_params" where
  "validate p =
     ebind (compute_istride (set_iotypes p)) (\<lambda>p.
     ebind (compute_ostride p) (\<lambda>p.
     ebind (set_idist p) (\<lambda>p.
     ebind (set_odist p) (\<lambda>p.
     ebind (compute_isize p) (\<lambda>p.
     compute_osize p)))))"

text \<open>
  \<open>valid\<close>. The argument \<open>verbose\<close> only selects what is printed and is left out.
  \<open>||\<close> and \<open>&&\<close> evaluate their right operand only when needed, so
  \<open>ostride.back()\<close> is read only when \<open>istride.back()\<close> is 1.
\<close>

fun offsets_loop :: "size_t list \<Rightarrow> size_t list \<Rightarrow> nat \<Rightarrow> nat \<Rightarrow> error + bool" where
  "offsets_loop ioff ooff i 0 = Inr True"
| "offsets_loop ioff ooff i (Suc n) =
     ebind (vector_at ioff i) (\<lambda>a. ebind (vector_at ooff i) (\<lambda>b.
       if a \<noteq> b then Inr False else offsets_loop ioff ooff (Suc i) n))"

definition is_c2c :: "rocfft_transform_type \<Rightarrow> bool" where
  "is_c2c t \<longleftrightarrow> t = rocfft_transform_type_complex_forward
               \<or> t = rocfft_transform_type_complex_inverse"

definition is_r2c :: "rocfft_transform_type \<Rightarrow> bool" where
  "is_r2c t \<longleftrightarrow> t = rocfft_transform_type_real_forward
               \<or> t = rocfft_transform_type_real_inverse"

definition samestride :: "fft_params \<Rightarrow> bool" where
  "samestride p =
     (let stridesize = min (length (istride p)) (length (ostride p))
      in list_all (\<lambda>i. istride p ! i = ostride p ! i) [0..<stridesize])"

definition unit_strides :: "fft_params \<Rightarrow> error + bool" where
  \<comment> \<open>\<open>istride.back() != 1 || ostride.back() != 1\<close>, negated\<close>
  "unit_strides p =
     ebind (vector_back (istride p)) (\<lambda>i.
       if i \<noteq> 1 then Inr False
       else ebind (vector_back (ostride p)) (\<lambda>o'. Inr (o' = 1)))"

definition check_offsets :: "fft_params \<Rightarrow> error + bool" where
  "check_offsets p =
     (case transform_type p of
        rocfft_transform_type_complex_forward \<Rightarrow>
          offsets_loop (ioffset p) (ooffset p) 0 (nibuffer p)
      | rocfft_transform_type_complex_inverse \<Rightarrow>
          offsets_loop (ioffset p) (ooffset p) 0 (nibuffer p)
      | rocfft_transform_type_real_forward \<Rightarrow>
          ebind (vector_at (ioffset p) 0) (\<lambda>a. ebind (vector_at (ooffset p) 0) (\<lambda>b. Inr (\<not> a \<noteq> 2 * b)))
      | rocfft_transform_type_real_inverse \<Rightarrow>
          ebind (vector_at (ioffset p) 0) (\<lambda>a. ebind (vector_at (ooffset p) 0) (\<lambda>b. Inr (\<not> 2 * a \<noteq> b))))"

definition valid :: "fft_params \<Rightarrow> error + bool" where
  "valid p =
     (if length (ioffset p) < nibuffer p \<or> length (ooffset p) < nobuffer p then Inr False
      else if placement p = rocfft_placement_inplace then
        (if is_c2c (transform_type p) \<and> \<not> samestride p then Inr False
         else if is_c2c (transform_type p) \<and> idist p \<noteq> odist p then Inr False
         else
           ebind (if is_r2c (transform_type p) then unit_strides p else Inr True) (\<lambda>unit.
           if \<not> unit then Inr False
           else if (itype p = rocfft_array_type_complex_interleaved
                    \<and> otype p = rocfft_array_type_complex_planar)
                 \<or> (itype p = rocfft_array_type_complex_planar
                    \<and> otype p = rocfft_array_type_complex_interleaved) then Inr False
           else
             ebind (check_offsets p) (\<lambda>ok.
             if \<not> ok then Inr False
             else ebind (check_iotypes p) (\<lambda>okformat. Inr okformat))))
      else ebind (check_iotypes p) (\<lambda>okformat. Inr okformat))"

text \<open>
  Parameter sets of the test suite's kind: a batch of three in-place real-forward
  transforms of length 8 in double precision, an in-place real-forward transform of
  lengths 4 by 8 and a real-inverse transform of lengths 4 by 8 that is not in place,
  all with strides, distances and types left unset.
\<close>

definition r2c_inplace_8 :: fft_params where
  "r2c_inplace_8 =
     \<lparr>length_v = [8], istride = [], ostride = [], nbatch = 3,
      precision = rocfft_precision_double,
      transform_type = rocfft_transform_type_real_forward,
      placement = rocfft_placement_inplace, idist = 0, odist = 0,
      itype = rocfft_array_type_unset, otype = rocfft_array_type_unset,
      ioffset = [0, 0], ooffset = [0, 0], isize = [], osize = []\<rparr>"

definition r2c_inplace_8_validated :: fft_params where
  "r2c_inplace_8_validated =
     r2c_inplace_8\<lparr>istride := [1], ostride := [1], idist := 10, odist := 5,
        itype := rocfft_array_type_real, otype := rocfft_array_type_hermitian_interleaved,
        isize := [28], osize := [15]\<rparr>"

definition r2c_inplace_4x8 :: fft_params where
  "r2c_inplace_4x8 =
     \<lparr>length_v = [4, 8], istride = [], ostride = [], nbatch = 1,
      precision = rocfft_precision_single,
      transform_type = rocfft_transform_type_real_forward,
      placement = rocfft_placement_inplace, idist = 0, odist = 0,
      itype = rocfft_array_type_unset, otype = rocfft_array_type_unset,
      ioffset = [0, 0], ooffset = [0, 0], isize = [], osize = []\<rparr>"

definition c2r_4x8 :: fft_params where
  "c2r_4x8 =
     \<lparr>length_v = [4, 8], istride = [], ostride = [], nbatch = 1,
      precision = rocfft_precision_single,
      transform_type = rocfft_transform_type_real_inverse,
      placement = rocfft_placement_notinplace, idist = 0, odist = 0,
      itype = rocfft_array_type_unset, otype = rocfft_array_type_unset,
      ioffset = [0, 0], ooffset = [0, 0], isize = [], osize = []\<rparr>"


section \<open>Stockham kernel specification: \<open>stockham_gen_base.h\<close>, struct \<open>StockhamKernel\<close>\<close>

text \<open>
  \<open>StockhamGeneratorSpecs\<close> is declared in \<open>stockham_gen.h\<close>; these are the members the
  constructor of \<open>StockhamKernel\<close> reads and writes, all \<open>unsigned int\<close> but the flag.
  The member \<open>length\<close> is \<open>length_k\<close> here.
\<close>

record StockhamGeneratorSpecs =
  factors :: "uint list"
  factors2d :: "uint list"
  length_k :: uint
  length2d :: uint
  threads_per_block :: uint
  threads_per_transform :: uint
  half_lds :: bool

record StockhamKernel = StockhamGeneratorSpecs +
  nregisters :: nat
  transforms_per_block :: uint

definition LDS_BYTE_LIMIT :: uint where
  "LDS_BYTE_LIMIT = 32 * 1024"

definition BYTES_PER_ELEMENT :: uint where
  "BYTES_PER_ELEMENT = 16"

text \<open>
  The quotient \<open>length / width / threads_per_transform\<close> is computed in floating point
  (\<open>double\<close> in \<open>compute_nregisters\<close>, \<open>float\<close> in \<open>generate_device_function\<close>) and only
  its floor, its ceiling and whether it is an integer are used. The model computes it
  exactly, as a rational \<open>q\<close>. Each of the two divisions rounds, with a relative error of
  at most \<open>1 / 2 ^ 53\<close> in \<open>double\<close> and \<open>1 / 2 ^ 24\<close> in \<open>float\<close>. When \<open>q\<close> is an integer
  and the operands are represented exactly, both divisions are exact; otherwise \<open>q\<close> is
  at least \<open>1 / (width * threads_per_transform)\<close> away from an integer, and the rounded
  quotient lies strictly between the same two integers as \<open>q\<close> when the length is below
  \<open>2 ^ 52\<close> in \<open>double\<close>, which every 32-bit length is, and below \<open>2 ^ 23\<close> in \<open>float\<close>.
  For a longer length the \<open>float\<close> quotient can differ from \<open>q\<close> in its floor (from
  \<open>2 ^ 24\<close> on, the conversion of the length to \<open>float\<close> already rounds), so the
  statements on the generated device function are made for lengths below \<open>2 ^ 23\<close>.
\<close>

definition quotient :: "uint \<Rightarrow> uint \<Rightarrow> uint \<Rightarrow> rat" where
  "quotient len width tpt = of_nat (unat len) / of_nat (unat width) / of_nat (unat tpt)"

fun compute_nregisters :: "uint \<Rightarrow> uint list \<Rightarrow> uint \<Rightarrow> nat" where
  "compute_nregisters len [] tpt = 0"
| "compute_nregisters len (width # fs) tpt =
     max (nat \<lceil>quotient len width tpt\<rceil> * unat width) (compute_nregisters len fs tpt)"

text \<open>\<open>std::all_of\<close> over the factors with the predicate \<open>(length / t) % f == 0\<close>.\<close>

fun all_of_factors :: "uint \<Rightarrow> uint list \<Rightarrow> error + bool" where
  "all_of_factors q [] = Inr True"
| "all_of_factors q (f # fs) =
     (if f = 0 then Inl UndefinedBehaviour
      else if q mod f = 0 then all_of_factors q fs
      else Inr False)"

text \<open>The search \<open>for(unsigned int t = 2; t < length; ++t)\<close>, over the values of \<open>t\<close>.\<close>

fun tpt_loop :: "uint \<Rightarrow> uint list \<Rightarrow> uint \<Rightarrow> nat list \<Rightarrow> uint \<Rightarrow> error + uint" where
  "tpt_loop len fs tpb [] tpt = Inr tpt"
| "tpt_loop len fs tpb (t # ts) tpt =
     (if of_nat t > tpb then tpt_loop len fs tpb ts tpt
      else if len mod of_nat t = 0 then
        ebind (all_of_factors (len div of_nat t) fs) (\<lambda>ok.
          tpt_loop len fs tpb ts (if ok then of_nat t else tpt))
      else tpt_loop len fs tpb ts tpt)"

text \<open>\<open>while(threads_per_transform * batches_per_block > threads_per_block) --batches_per_block;\<close>\<close>

function batches_loop :: "uint \<Rightarrow> uint \<Rightarrow> uint \<Rightarrow> uint" where
  "batches_loop tpt tpb bpb =
     (if tpt * bpb > tpb then batches_loop tpt tpb (bpb - 1) else bpb)"
  by pat_completeness auto
termination
proof (relation "measure (\<lambda>(tpt, tpb, bpb). unat bpb)")
  show "wf (measure (\<lambda>(tpt :: uint, tpb :: uint, bpb :: uint). unat bpb))"
    by simp
next
  fix tpt tpb bpb :: uint
  assume "tpb < tpt * bpb"
  then have "bpb \<noteq> 0" by auto
  then have "unat (bpb - 1) < unat bpb"
    by (simp add: unat_minus_one unat_gt_0)
  then show "((tpt, tpb, bpb - 1), (tpt, tpb, bpb)) \<in> measure (\<lambda>(tpt, tpb, bpb). unat bpb)"
    by simp
qed

declare batches_loop.simps [simp del]

text \<open>The constructor, in the order of its statements.\<close>

definition bytes_per_batch :: "StockhamGeneratorSpecs \<Rightarrow> uint" where
  "bytes_per_batch specs =
     (let bytes_per_batch = length_k specs * BYTES_PER_ELEMENT
      in if half_lds specs then bytes_per_batch div 2 else bytes_per_batch)"

definition choose_threads_per_transform :: "StockhamGeneratorSpecs \<Rightarrow> error + uint" where
  "choose_threads_per_transform specs =
     (if threads_per_transform specs = 0
      then tpt_loop (length_k specs) (factors specs) (threads_per_block specs)
             [2..<unat (length_k specs)] 1
      else Inr (threads_per_transform specs))"

definition batches_per_block :: "StockhamGeneratorSpecs \<Rightarrow> uint \<Rightarrow> uint" where
  "batches_per_block specs tpt =
     (let batches_per_block = LDS_BYTE_LIMIT div bytes_per_batch specs;
          batches_per_block = batches_loop tpt (threads_per_block specs) batches_per_block
      in if factors2d specs \<noteq> [] then min batches_per_block (length2d specs)
         else batches_per_block)"

definition StockhamKernel :: "StockhamGeneratorSpecs \<Rightarrow> error + StockhamKernel" where
  "StockhamKernel specs =
     ebind (choose_threads_per_transform specs) (\<lambda>tpt.
       if bytes_per_batch specs = 0 then Inl UndefinedBehaviour
       else
         let tpb = tpt * batches_per_block specs tpt
         in Inr (StockhamGeneratorSpecs.extend
                   (specs\<lparr>threads_per_transform := tpt, threads_per_block := tpb\<rparr>)
                   (StockhamKernel.fields
                      (compute_nregisters (length_k specs) (factors specs) tpt)
                      (tpb div tpt))))"

text \<open>
  Two kernels: length 4096 in four radix-8 passes with real-only LDS, the thread counts
  given; and length 64 in three radix-4 passes, the threads per transform left to the
  constructor.
\<close>

definition specs_4096 :: StockhamGeneratorSpecs where
  "specs_4096 =
     \<lparr>factors = [8, 8, 8, 8], factors2d = [], length_k = 4096, length2d = 0,
      threads_per_block = 256, threads_per_transform = 256, half_lds = True\<rparr>"

definition specs_64 :: StockhamGeneratorSpecs where
  "specs_64 =
     \<lparr>factors = [4, 4, 4], factors2d = [], length_k = 64, length2d = 0,
      threads_per_block = 128, threads_per_transform = 0, half_lds = False\<rparr>"

definition kernel_64 :: StockhamKernel where
  "kernel_64 =
     \<lparr>factors = [4, 4, 4], factors2d = [], length_k = 64, length2d = 0,
      threads_per_block = 128, threads_per_transform = 16, half_lds = False,
      nregisters = 4, transforms_per_block = 8\<rparr>"

section \<open>Radix sequence of a kernel: \<open>generator.kernel.hpp\<close>\<close>

text \<open>
  The integers of this part are \<open>size_t\<close>, written as natural numbers with the
  wrap-around of a product spelled out (\<open>mod 2 ^ 64\<close>); quotients and remainders cannot
  wrap. \<open>SpecRecord\<close> and the table \<open>GetRecord()\<close> are declared in a header that is not
  among the sources: a row has the members read here, and the table is a parameter.
  A failed \<open>assert\<close> ends the constructor with \<open>AssertionFailed\<close>.
\<close>

definition wrap64 :: "nat \<Rightarrow> nat" where
  "wrap64 n = n mod 2 ^ 64"

record SpecRecord =
  length_r :: nat
  workGroupSize_r :: nat
  numTransforms_r :: nat
  numPasses_r :: nat
  radices_r :: "nat list"

text \<open>\<open>KernelCoreSpecs::GetRadices\<close>: the first row of the length, its first \<open>numPasses\<close> radices.\<close>

fun copy_radices :: "nat list \<Rightarrow> nat \<Rightarrow> nat \<Rightarrow> error + nat list" where
  "copy_radices rs j 0 = Inr []"
| "copy_radices rs j (Suc n) =
     ebind (vector_at rs j) (\<lambda>r. ebind (copy_radices rs (Suc j) n) (\<lambda>rest. Inr (r # rest)))"

fun GetRadices :: "SpecRecord list \<Rightarrow> nat \<Rightarrow> error + nat list" where
  "GetRadices [] len = Inr []"
| "GetRadices (rec # specRecord) len =
     (if len = length_r rec then copy_radices (radices_r rec) 0 (numPasses_r rec)
      else GetRadices specRecord len)"

text \<open>
  \<open>FFTKernelGenKeyParams\<close>: the members the breakdown into passes depends on. A \<open>Pass\<close>
  object is its position, radix and the three lengths \<open>L\<close>, \<open>LS\<close>, \<open>R\<close>; the flags the
  constructor hands on to every pass unchanged are left out.
\<close>

record FFTKernelGenKeyParams =
  fft_N0 :: nat
  fft_workGroupSize :: nat
  fft_numTrans :: nat
  fft_MaxWorkGroupSize :: nat
  blockCompute :: bool

record Pass =
  position :: nat
  radix :: nat
  pass_L :: nat
  pass_LS :: nat
  pass_R :: nat

record Kernel =
  length_g :: nat
  workGroupSize :: nat
  cnPerWI :: nat
  numTrans :: nat
  workGroupSizePerTrans :: nat
  numPasses :: nat
  radices :: "nat list"
  passes :: "Pass list"
  halfLds :: bool
  linearRegs :: bool

definition cRad :: "nat list" where
  "cRad = [13, 11, 10, 8, 7, 6, 5, 4, 3, 2, 1]"

text \<open>
  The inner \<open>for\<close> loop over \<open>cRad\<close>: \<open>rad\<close> is assigned in every iteration, so after the
  loop it is the candidate at which the loop broke, or the last one.
\<close>

fun pick_radix :: "nat \<Rightarrow> nat \<Rightarrow> nat list \<Rightarrow> nat \<Rightarrow> nat" where
  "pick_radix cn R [] rad = rad"
| "pick_radix cn R (c # cs) rad =
     (if c > cn \<or> cn mod c \<noteq> 0 then pick_radix cn R cs c
      else if R mod c = 0 then c
      else pick_radix cn R cs c)"

text \<open>
  The \<open>while(true)\<close> loop. It has no bound in the source; the first argument is the
  number of iterations the model may run, and \<open>None\<close> says that they did not suffice.
\<close>

fun radix_loop ::
  "nat \<Rightarrow> nat \<Rightarrow> nat \<Rightarrow> nat \<Rightarrow> nat \<Rightarrow> nat list \<Rightarrow> Pass list
     \<Rightarrow> (error + nat list \<times> Pass list \<times> nat) option" where
  "radix_loop 0 cn pid LS R rads ps = None"
| "radix_loop (Suc fuel) cn pid LS R rads ps =
     (let rad = pick_radix cn R cRad 0 in
      if cn mod rad \<noteq> 0 then Some (Inl AssertionFailed)
      else
        let L = wrap64 (LS * rad);
            R = R div rad;
            rads = rads @ [rad];
            ps = ps @ [\<lparr>position = pid, radix = rad, pass_L = L, pass_LS = LS, pass_R = R\<rparr>];
            pid = pid + 1;
            LS = wrap64 (LS * rad)
        in if \<not> R \<ge> 1 then Some (Inl AssertionFailed)
           else if R = 1 then Some (Inr (rads, ps, pid))
           else radix_loop fuel cn pid LS R rads ps)"

text \<open>The loop over the tabulated radices, with the \<open>assert(R == 1)\<close> after it.\<close>

fun table_loop :: "nat list \<Rightarrow> nat \<Rightarrow> nat \<Rightarrow> nat \<Rightarrow> Pass list \<Rightarrow> error + Pass list" where
  "table_loop [] i LS R ps = (if R = 1 then Inr ps else Inl AssertionFailed)"
| "table_loop (rad # rs) i LS R ps =
     (if rad = 0 then Inl UndefinedBehaviour
      else
        let L = wrap64 (LS * rad);
            R = R div rad
        in table_loop rs (i + 1) (wrap64 (LS * rad)) R
             (ps @ [\<lparr>position = i, radix = rad, pass_L = L, pass_LS = LS, pass_R = R\<rparr>]))"

text \<open>
  The constructor up to the breakdown into passes: the assertions on the work-group
  size and the two quotients \<open>cnPerWI\<close> and \<open>workGroupSizePerTrans\<close>.
\<close>

definition Kernel_sizes :: "FFTKernelGenKeyParams \<Rightarrow> error + nat \<times> nat" where
  "Kernel_sizes params =
     (let len = fft_N0 params;
          wgs = fft_workGroupSize params;
          nt = fft_numTrans params
      in if blockCompute params \<and> \<not> len \<le> 256 then Inl AssertionFailed
         else if wgs = 0 then Inl UndefinedBehaviour
         else if wrap64 (len * nt) mod wgs \<noteq> 0 then Inl AssertionFailed
         else if nt = 0 then Inl UndefinedBehaviour
         else
           let cn = wrap64 (nt * len) div wgs;
               wgspt = wgs div nt
           in if wrap64 (cn * wgs) \<noteq> wrap64 (nt * len) then Inl AssertionFailed
              else if \<not> cn \<le> len then Inl AssertionFailed
              else Inr (cn, wgspt))"

text \<open>
  The breakdown into passes: the tabulated radices when the table has a row and the
  maximal work-group size is at least 256, the \<open>while\<close> loop otherwise, which appends to
  the vector \<open>radices\<close> as \<open>GetRadices\<close> left it. That vector is a local variable of the
  constructor, declared with the name of the member \<open>radices\<close> and hiding it: the loops
  and the closing assertion read and write the local one (\<open>rads\<close> here), and the member is
  never assigned, so it is the empty vector in every kernel constructed. The radix of
  each pass is kept in the pass objects.
\<close>

definition Kernel_passes ::
  "nat \<Rightarrow> FFTKernelGenKeyParams \<Rightarrow> nat \<Rightarrow> nat list
     \<Rightarrow> (error + nat list \<times> Pass list \<times> nat) option" where
  "Kernel_passes fuel params cn rads =
     (if fft_MaxWorkGroupSize params \<ge> 256 \<and> length rads \<noteq> 0
      then Some (map_sum id (\<lambda>ps. (rads, ps, length rads))
                   (table_loop rads 0 1 (fft_N0 params) []))
      else radix_loop fuel cn 0 1 (fft_N0 params) rads [])"

definition Kernel ::
  "nat \<Rightarrow> SpecRecord list \<Rightarrow> FFTKernelGenKeyParams \<Rightarrow> (error + Kernel) option" where
  "Kernel fuel specRecord params =
     (case Kernel_sizes params of
        Inl e \<Rightarrow> Some (Inl e)
      | Inr (cn, wgspt) \<Rightarrow>
          (case GetRadices specRecord (fft_N0 params) of
             Inl e \<Rightarrow> Some (Inl e)
           | Inr rads \<Rightarrow>
               (case Kernel_passes fuel params cn rads of
                  None \<Rightarrow> None
                | Some (Inl e) \<Rightarrow> Some (Inl e)
                | Some (Inr (rads, ps, np)) \<Rightarrow>
                    if np \<noteq> length ps \<or> np \<noteq> length rads
                    then Some (Inl AssertionFailed)
                    else Some (Inr \<lparr>length_g = fft_N0 params,
                           workGroupSize = fft_workGroupSize params, cnPerWI = cn,
                           numTrans = fft_numTrans params, workGroupSizePerTrans = wgspt,
                           numPasses = np, radices = [], passes = ps,
                           halfLds = \<not> blockCompute params, linearRegs = True\<rparr>))))"

text \<open>
  The claim's greedy rule, in its own words: candidates 13 down to 2; at each step the
  largest one that divides the remaining length and the register count; until the
  remainder is 1. \<open>None\<close> when some step has no candidate.
\<close>

definition candidates :: "nat list" where
  "candidates = [13, 11, 10, 8, 7, 6, 5, 4, 3, 2]"

definition largest_candidate :: "nat \<Rightarrow> nat \<Rightarrow> nat option" where
  "largest_candidate R cn = find (\<lambda>c. c dvd R \<and> c dvd cn) candidates"

function greedy_factors :: "nat \<Rightarrow> nat \<Rightarrow> nat list option" where
  "greedy_factors cn R =
     (if R = 1 then Some []
      else if R = 0 then None
      else case largest_candidate R cn of
             None \<Rightarrow> None
           | Some c \<Rightarrow> map_option ((#) c) (greedy_factors cn (R div c)))"
  by pat_completeness auto
termination
proof (relation "measure snd")
  show "wf (measure (snd :: nat \<times> nat \<Rightarrow> nat))" by simp
next
  fix cn R c :: nat
  assume R: "R \<noteq> 1" "R \<noteq> 0" and c: "largest_candidate R cn = Some c"
  from c have "c \<in> set candidates"
    unfolding largest_candidate_def by (auto simp: find_Some_iff)
  then have "2 \<le> c" by (auto simp: candidates_def)
  with R have "R div c < R" by simp
  then show "((cn, R div c), (cn, R)) \<in> measure snd" by simp
qed

text \<open>A table with the row of length 64 (three radix-4 passes) and two requests for it.\<close>

definition table_64 :: "SpecRecord list" where
  "table_64 = [\<lparr>length_r = 64, workGroupSize_r = 64, numTransforms_r = 4, numPasses_r = 3,
                radices_r = [4, 4, 4]\<rparr>]"

definition params_64 :: "nat \<Rightarrow> FFTKernelGenKeyParams" where
  "params_64 maxwgs =
     \<lparr>fft_N0 = 64, fft_workGroupSize = 64, fft_numTrans = 8, fft_MaxWorkGroupSize = maxwgs,
      blockCompute = False\<rparr>"

definition params_35 :: FFTKernelGenKeyParams where
  "params_35 =
     \<lparr>fft_N0 = 35, fft_workGroupSize = 64, fft_numTrans = 64, fft_MaxWorkGroupSize = 256,
      blockCompute = False\<rparr>"

declare greedy_factors.simps [simp del]

section \<open>Generated device function: \<open>StockhamKernel::generate_device_function\<close>\<close>

text \<open>
  The generator builds a tree of statements and expressions, whose classes are declared
  in a header that is not among the sources. An expression built from a variable of the
  generated code is a node; an operation on two \<open>unsigned int\<close> of the generator is
  computed by the generator, in 32 bits, and appears as a literal. The text of a comment
  is not modelled: it has the decimal rendering of numbers and no effect.
\<close>

datatype expr =
    Var string
  | Lit uint
  | Str string
  | Add expr expr
  | Mul expr expr
  | Div expr expr
  | Mod expr expr
  | Less expr expr
  | And expr expr
  | Equal expr expr
  | Not expr
  | Parens expr
  | Ternary expr expr expr
  | Index expr expr
  | CompX expr
  | CompY expr
  | TwiddleMultiply expr expr

datatype stmt =
    Declaration expr "expr option"
  | Assign expr expr
  | If expr "stmt list"
  | Else "stmt list"
  | SyncThreads
  | LineBreak
  | CommentLines
  | Butterfly bool "expr list"

datatype Component = Component_NONE | Component_X | Component_Y

text \<open>The variables of the generated code; \<open>W\<close>, \<open>t\<close>, \<open>R\<close> and \<open>write\<close> carry a suffix here.\<close>

definition twiddles :: expr where "twiddles = Var ''twiddles''"
definition write_var :: expr where "write_var = Var ''write''"
definition lds_is_real :: expr where "lds_is_real = Var ''lds_is_real''"
definition lds_real :: expr where "lds_real = Var ''lds_real''"
definition lds_complex :: expr where "lds_complex = Var ''lds_complex''"
definition thread_id :: expr where "thread_id = Var ''threadIdx.x''"
definition thread :: expr where "thread = Var ''thread''"
definition offset_lds :: expr where "offset_lds = Var ''offset_lds''"
definition stride_type :: expr where "stride_type = Var ''sb''"
definition stride_lds :: expr where "stride_lds = Var ''stride_lds''"
definition lstride :: expr where "lstride = Var ''lstride''"
definition W_var :: expr where "W_var = Var ''W''"
definition t_var :: expr where "t_var = Var ''t''"
definition R_var :: expr where "R_var = Var ''R''"

definition urange :: "nat \<Rightarrow> uint \<Rightarrow> uint list" where
  \<comment> \<open>the values of \<open>for(unsigned int w = a; w < n; ++w)\<close>\<close>
  "urange a n = map of_nat [a..<unat n]"

definition product :: "uint list \<Rightarrow> uint" where
  \<comment> \<open>Modelled from the spec: \<open>product\<close> is declared in \<open>stockham_gen.h\<close>, which is missing;
      the cumulative height of a pass is the product of the widths of all earlier passes.\<close>
  "product fs = foldl (*) 1 fs"

definition load_lds_generator ::
  "StockhamKernel \<Rightarrow> Component \<Rightarrow> uint \<Rightarrow> uint \<Rightarrow> uint \<Rightarrow> uint \<Rightarrow> stmt list" where
  "load_lds_generator k component h hr width dt =
     (let hr = (if hr = 0 then h else hr) in
      map (\<lambda>w.
        let tid = Parens (Add (Add thread (Lit dt)) (Lit (h * threads_per_transform k)));
            idx = Add offset_lds (Mul (Add tid (Lit (w * length_k k div width))) lstride)
        in case component of
             Component_X \<Rightarrow> Assign (CompX (Index R_var (Lit (hr * width + w)))) (Index lds_real idx)
           | Component_Y \<Rightarrow> Assign (CompY (Index R_var (Lit (hr * width + w)))) (Index lds_real idx)
           | Component_NONE \<Rightarrow> Assign (Index R_var (Lit (hr * width + w))) (Index lds_complex idx))
        (urange 0 width))"

definition store_lds_generator ::
  "StockhamKernel \<Rightarrow> Component \<Rightarrow> uint \<Rightarrow> uint \<Rightarrow> uint \<Rightarrow> uint \<Rightarrow> uint \<Rightarrow> stmt list" where
  "store_lds_generator k component cumheight h hr width dt =
     (let hr = (if hr = 0 then h else hr) in
      map (\<lambda>w.
        let tid = Add (Add thread (Lit dt)) (Lit (h * threads_per_transform k));
            idx = Add offset_lds
                    (Mul (Add (Add (Mul (Parens (Div tid (Lit cumheight))) (Lit (width * cumheight)))
                                   (Mod tid (Lit cumheight)))
                              (Lit (w * cumheight)))
                         lstride)
        in case component of
             Component_X \<Rightarrow> Assign (Index lds_real idx) (CompX (Index R_var (Lit (hr * width + w))))
           | Component_Y \<Rightarrow> Assign (Index lds_real idx) (CompY (Index R_var (Lit (hr * width + w))))
           | Component_NONE \<Rightarrow> Assign (Index lds_complex idx) (Index R_var (Lit (hr * width + w))))
        (urange 0 width))"

definition apply_twiddle_generator ::
  "StockhamKernel \<Rightarrow> uint \<Rightarrow> uint \<Rightarrow> uint \<Rightarrow> uint \<Rightarrow> uint \<Rightarrow> stmt list" where
  "apply_twiddle_generator k cumheight h hr width dt =
     (let hr = (if hr = 0 then h else hr) in
      concat (map (\<lambda>w.
        let tid = Add (Add thread (Lit dt)) (Lit (h * threads_per_transform k));
            tidx = Add (Lit (cumheight - 1 + w - 1)) (Mul (Lit (width - 1)) (Mod tid (Lit cumheight)));
            ridx = hr * width + w
        in [Assign W_var (Index twiddles tidx),
            Assign t_var (TwiddleMultiply (Index R_var (Lit ridx)) W_var),
            Assign (Index R_var (Lit ridx)) t_var])
        (urange 1 width)))"

definition butterfly_generator ::
  "StockhamKernel \<Rightarrow> uint \<Rightarrow> uint \<Rightarrow> uint \<Rightarrow> uint \<Rightarrow> stmt list" where
  "butterfly_generator k h hr width dt =
     (let hr = (if hr = 0 then h else hr) in
      [Butterfly True (map (\<lambda>w. Add R_var (Lit (hr * width + w))) (urange 0 width))])"

definition large_twiddles_multiply :: "StockhamKernel \<Rightarrow> uint \<Rightarrow> uint \<Rightarrow> stmt list" where
  \<comment> \<open>the virtual function as \<open>StockhamKernel\<close> defines it\<close>
  "large_twiddles_multiply k width cumheight = []"

text \<open>
  \<open>add_work\<close>: the generator is called once for each of the \<open>iheight\<close> butterflies of a
  thread; when the threads do not suffice, some threads do one more.
\<close>

definition iheight_of :: "StockhamKernel \<Rightarrow> uint \<Rightarrow> rat \<Rightarrow> uint" where
  \<comment> \<open>\<open>iheight\<close> after \<open>if(height > iheight && threads_per_transform > length / width) iheight += 1\<close>\<close>
  "iheight_of k width height =
     (let iheight = (of_nat (nat \<lfloor>height\<rfloor>) :: uint)
      in if height > of_nat (unat iheight) \<and> threads_per_transform k > length_k k div width
         then iheight + 1 else iheight)"

definition extra_work :: "StockhamKernel \<Rightarrow> uint \<Rightarrow> rat \<Rightarrow> bool" where
  \<comment> \<open>\<open>height > iheight && threads_per_transform < length / width\<close>\<close>
  "extra_work k width height \<longleftrightarrow>
     height > of_nat (unat (iheight_of k width height))
     \<and> threads_per_transform k < length_k k div width"

definition add_work ::
  "StockhamKernel \<Rightarrow> (uint \<Rightarrow> uint \<Rightarrow> uint \<Rightarrow> uint \<Rightarrow> stmt list) \<Rightarrow> uint \<Rightarrow> rat \<Rightarrow> bool
     \<Rightarrow> stmt list" where
  "add_work k generator width height guard =
     (let iheight = iheight_of k width height;
          work = concat (map (\<lambda>h. generator h 0 width 0) (urange 0 iheight));
          stmts = (if guard then
                     [CommentLines,
                      if threads_per_transform k \<noteq> length_k k div width
                      then If (And write_var (Less thread (Lit (length_k k div width)))) work
                      else If write_var work]
                   else work)
      in if extra_work k width height
         then
           (let dt = iheight * threads_per_transform k;
                work = generator 0 iheight width dt
            in stmts @ [CommentLines,
                        If (And write_var (Less (Add thread (Lit dt)) (Lit (length_k k div width))))
                           work])
         else stmts)"

text \<open>The body of the loop over the passes, in three parts, and the function body.\<close>

definition cumheight_of :: "StockhamKernel \<Rightarrow> nat \<Rightarrow> uint" where
  "cumheight_of k npass = product (take npass (factors k))"

definition height_of :: "StockhamKernel \<Rightarrow> uint \<Rightarrow> rat" where
  \<comment> \<open>\<open>static_cast<float>(length) / width / threads_per_transform\<close>, as the exact quotient:
      the \<open>float\<close> of the source has its floor and its integrality for
      \<open>length < 2 ^ 23\<close>, which the statements on the generated code assume\<close>
  "height_of k width = quotient (length_k k) width (threads_per_transform k)"

definition pass_load :: "StockhamKernel \<Rightarrow> nat \<Rightarrow> stmt list" where
  "pass_load k npass =
     (let width = factors k ! npass; height = height_of k width in
      [LineBreak, CommentLines, SyncThreads,
       If (Not lds_is_real) (add_work k (load_lds_generator k Component_NONE) width height False)])"

definition pass_twiddle :: "StockhamKernel \<Rightarrow> nat \<Rightarrow> stmt list" where
  "pass_twiddle k npass =
     (let width = factors k ! npass; height = height_of k width;
          cumheight = cumheight_of k npass
      in if npass > 0
         then add_work k (apply_twiddle_generator k cumheight) width height False
         else [])"

definition store_half :: "StockhamKernel \<Rightarrow> nat \<Rightarrow> stmt list" where
  "store_half k npass =
     (let cumheight = cumheight_of k npass in
      if npass + 1 < length (factors k) then
        concat (map (\<lambda>component.
          (let half_width = factors k ! npass;
               half_height = height_of k half_width;
               store = add_work k (store_lds_generator k component cumheight)
                         half_width half_height True;
               half_width = factors k ! (npass + 1);
               half_height = height_of k half_width;
               load = add_work k (load_lds_generator k component) half_width half_height True
           in store @ [SyncThreads] @ load @ [SyncThreads]))
          [Component_X, Component_Y])
      else [])"

definition store_full :: "StockhamKernel \<Rightarrow> nat \<Rightarrow> stmt list" where
  "store_full k npass =
     (let width = factors k ! npass; height = height_of k width;
          cumheight = cumheight_of k npass
      in [SyncThreads]
         @ add_work k (store_lds_generator k Component_NONE cumheight) width height True)"

definition pass_butterfly_store :: "StockhamKernel \<Rightarrow> nat \<Rightarrow> stmt list" where
  "pass_butterfly_store k npass =
     (let width = factors k ! npass; height = height_of k width;
          cumheight = cumheight_of k npass
      in add_work k (butterfly_generator k) width height False
         @ (if npass + 1 = length (factors k)
            then large_twiddles_multiply k width cumheight else [])
         @ [If (Not lds_is_real) (store_full k npass), Else (store_half k npass)])"

definition pass_body :: "StockhamKernel \<Rightarrow> nat \<Rightarrow> error + stmt list" where
  \<comment> \<open>a zero width or thread count divides by zero\<close>
  "pass_body k npass =
     (if factors k ! npass = 0 \<or> threads_per_transform k = 0
         \<or> (npass + 1 < length (factors k) \<and> factors k ! (npass + 1) = 0)
      then Inl UndefinedBehaviour
      else Inr (pass_load k npass @ pass_twiddle k npass @ pass_butterfly_store k npass))"

fun passes_loop :: "StockhamKernel \<Rightarrow> nat list \<Rightarrow> error + stmt list" where
  "passes_loop k [] = Inr []"
| "passes_loop k (npass # rest) =
     ebind (pass_body k npass) (\<lambda>body. ebind (passes_loop k rest) (\<lambda>more. Inr (body @ more)))"

definition generate_device_function :: "StockhamKernel \<Rightarrow> error + stmt list" where
  "generate_device_function k =
     (if length_k k = 1 then Inr []
      else
        ebind (passes_loop k [0..<length (factors k)]) (\<lambda>passes.
          Inr ([Declaration thread None, Declaration W_var None, Declaration t_var None,
                Declaration lstride
                  (Some (Ternary (Parens (Equal stride_type (Str ''SB_UNIT'')))
                           (Parens (Lit 1)) (Parens stride_lds))),
                Assign thread (Mod thread_id (Lit (threads_per_transform k)))]
               @ passes)))"

text \<open>
  Reading the generated code. \<open>eval\<close> is the value of an index expression for given
  values of the variables; \<open>uses_twiddles\<close> says that a statement reads the twiddle table
  or multiplies by a twiddle.
\<close>

fun eval :: "(string \<Rightarrow> nat) \<Rightarrow> expr \<Rightarrow> nat option" where
  "eval env (Var v) = Some (env v)"
| "eval env (Lit n) = Some (unat n)"
| "eval env (Add a b) = (case (eval env a, eval env b) of (Some x, Some y) \<Rightarrow> Some (x + y) | _ \<Rightarrow> None)"
| "eval env (Mul a b) = (case (eval env a, eval env b) of (Some x, Some y) \<Rightarrow> Some (x * y) | _ \<Rightarrow> None)"
| "eval env (Div a b) = (case (eval env a, eval env b) of (Some x, Some y) \<Rightarrow> Some (x div y) | _ \<Rightarrow> None)"
| "eval env (Mod a b) = (case (eval env a, eval env b) of (Some x, Some y) \<Rightarrow> Some (x mod y) | _ \<Rightarrow> None)"
| "eval env (Parens a) = eval env a"
| "eval env _ = None"




fun real_path :: "stmt list \<Rightarrow> stmt list" where
  "real_path [] = []"
| "real_path (If c body # Else other # rest) =
     (if c = Not lds_is_real then real_path other @ real_path rest
      else real_path body @ real_path rest)"
| "real_path (If c body # rest) =
     (if c = Not lds_is_real then real_path rest else real_path body @ real_path rest)"
| "real_path (Else other # rest) = real_path rest"
| "real_path (s # rest) = s # real_path rest"

datatype lds_event = StoreX | StoreY | LoadX | LoadY | Barrier

fun event_of :: "stmt \<Rightarrow> lds_event list" where
  "event_of SyncThreads = [Barrier]"
| "event_of (Assign (Index a i) (CompX r)) = (if a = lds_real then [StoreX] else [])"
| "event_of (Assign (Index a i) (CompY r)) = (if a = lds_real then [StoreY] else [])"
| "event_of (Assign (CompX r) (Index a i)) = (if a = lds_real then [LoadX] else [])"
| "event_of (Assign (CompY r) (Index a i)) = (if a = lds_real then [LoadY] else [])"
| "event_of _ = []"

definition events :: "stmt list \<Rightarrow> lds_event list" where
  "events body = concat (map event_of body)"

text \<open>
  The claim on barriers as a check of a sequence of events, from the X and Y stores
  pending since the last barrier: a Y store must not find an X store pending, and a
  load must not find any store pending.
\<close>

fun barriers_ok :: "bool \<times> bool \<Rightarrow> lds_event list \<Rightarrow> bool" where
  "barriers_ok pending [] = True"
| "barriers_ok pending (Barrier # es) = barriers_ok (False, False) es"
| "barriers_ok (x, y) (StoreX # es) = barriers_ok (True, y) es"
| "barriers_ok (x, y) (StoreY # es) = (\<not> x \<and> barriers_ok (x, True) es)"
| "barriers_ok (x, y) (LoadX # es) = (\<not> x \<and> \<not> y \<and> barriers_ok (x, y) es)"
| "barriers_ok (x, y) (LoadY # es) = (\<not> x \<and> \<not> y \<and> barriers_ok (x, y) es)"

text \<open>The kernel of length 64 with real-only LDS, as its constructor leaves it.\<close>

definition kernel_64_half :: StockhamKernel where
  "kernel_64_half = kernel_64\<lparr>half_lds := True\<rparr>"


definition work_items :: "StockhamKernel \<Rightarrow> uint \<Rightarrow> rat \<Rightarrow> nat" where
  \<comment> \<open>the number of butterflies a thread does in a pass\<close>
  "work_items k width height =
     unat (iheight_of k width height) + (if extra_work k width height then 1 else 0)"

text \<open>A statement that is neither a branch, a barrier, a declaration nor layout.\<close>

fun plain :: "stmt \<Rightarrow> bool" where
  "plain (Assign a b) = True"
| "plain (Butterfly f args) = True"
| "plain _ = False"

section \<open>Runtime-compilation cache: \<open>rtccache.h\<close>, struct \<open>RTCCache\<close>\<close>

text \<open>
  The header declares \<open>get_code_object\<close> and \<open>store_code_object\<close>; their bodies and the
  database behind them are not among the sources. A row of the table \<open>kernels\<close> has the
  primary key (name, arch, hip_version, generator_sum) and the columns code and
  timestamp, so the table is a map from keys to the rest of the row. \<open>hip_version\<close>, an
  \<open>int\<close>, is a 32-bit word; a byte (\<open>char\<close>) is an 8-bit word.
\<close>

record kernel_key =
  kernel_name :: string
  gpu_arch :: string
  hip_version :: "32 word"
  generator_sum :: "8 word list"

record kernel_row =
  code :: "8 word list"
  timestamp :: int

type_synonym RTCCache = "kernel_key \<rightharpoonup> kernel_row"

definition get_code_object ::
  "RTCCache \<Rightarrow> string \<Rightarrow> string \<Rightarrow> 32 word \<Rightarrow> 8 word list \<Rightarrow> 8 word list" where
  \<comment> \<open>Modelled from the spec: the body of \<open>RTCCache::get_code_object\<close> (rtccache.cpp) is
      missing. It looks up by the full 4-tuple key and returns the byte blob if all four
      match; the header adds that it returns an empty vector if no kernel matches.\<close>
  "get_code_object db name arch version gsum =
     (case db \<lparr>kernel_name = name, gpu_arch = arch, hip_version = version,
                generator_sum = gsum\<rparr> of
        Some row \<Rightarrow> code row
      | None \<Rightarrow> [])"

definition store_code_object ::
  "RTCCache \<Rightarrow> int \<Rightarrow> string \<Rightarrow> string \<Rightarrow> 32 word \<Rightarrow> 8 word list \<Rightarrow> 8 word list \<Rightarrow> RTCCache" where
  \<comment> \<open>Modelled from the spec: the body of \<open>RTCCache::store_code_object\<close> is missing. It
      inserts or replaces the row of the key; \<open>now\<close> is the time of the insertion.\<close>
  "store_code_object db now name arch version gsum bytes =
     db(\<lparr>kernel_name = name, gpu_arch = arch, hip_version = version, generator_sum = gsum\<rparr>
          \<mapsto> \<lparr>code = bytes, timestamp = now\<rparr>)"

definition cache_example :: RTCCache where
  "cache_example =
     store_code_object Map.empty 0 ''fft_fwd_len64'' ''gfx908'' 40421432 [1, 2] [127, 69, 76, 70]"

section \<open>Hermitian symmetry of the test input: \<open>impose_hermitian_symmetry\<close>\<close>

text \<open>
  A buffer is an array of scalars of the floating-point type \<open>'f\<close>, of which only zero and
  negation are used; the size of its allocation is not modelled. The complex element \<open>k\<close>
  of an interleaved buffer is the pair of scalars \<open>2k\<close> and \<open>2k + 1\<close>. Indices are computed
  in \<open>size_t\<close>; the pointer \<open>data\<close> is the buffer advanced by \<open>ibatch * idist\<close> elements.
  One statement of the source becomes the list of the assignments it performs:
  \<open>ImagZero i\<close> is \<open>data[i].imag(0.0)\<close> and \<open>ConjCopy d s\<close> is
  \<open>data[d] = std::conj(data[s])\<close>.
\<close>

type_synonym 'f buffer = "nat \<Rightarrow> 'f"

datatype hs_op = ImagZero size_t | ConjCopy size_t size_t

definition apply_op :: "size_t \<Rightarrow> 'f buffer \<Rightarrow> hs_op \<Rightarrow> ('f :: {zero, uminus}) buffer" where
  "apply_op base data op =
     (case op of
        ImagZero i \<Rightarrow> data(2 * (unat base + unat i) + 1 := 0)
      | ConjCopy d s \<Rightarrow>
          (let re = data (2 * (unat base + unat s));
               im = data (2 * (unat base + unat s) + 1)
           in data(2 * (unat base + unat d) := re, 2 * (unat base + unat d) + 1 := - im)))"

text \<open>
  A statement that is reached and reads the strides of the axes \<open>axes\<close>: reading past
  the end of \<open>istride\<close> is undefined. \<open>seq\<close> runs statements in order up to the first
  failure; a loop is the sequence of its iterations.
\<close>

definition rd :: "size_t list \<Rightarrow> nat list \<Rightarrow> hs_op list \<Rightarrow> error + hs_op list" where
  "rd istride' axes ops =
     (if list_all (\<lambda>a. a < length istride') axes then Inr ops else Inl UndefinedBehaviour)"

fun seq :: "(error + hs_op list) list \<Rightarrow> error + hs_op list" where
  "seq [] = Inr []"
| "seq (s # ss) = ebind s (\<lambda>ops. ebind (seq ss) (\<lambda>rest. Inr (ops @ rest)))"

definition cond :: "bool \<Rightarrow> error + hs_op list \<Rightarrow> error + hs_op list" where
  "cond c s = (if c then s else Inr [])"

definition half_range :: "size_t \<Rightarrow> nat list" where
  \<comment> \<open>the values of \<open>for(auto i = 1; i < (l + 1) / 2; ++i)\<close>\<close>
  "half_range l = [1..<unat ((l + 1) div 2)]"

definition full_range :: "size_t \<Rightarrow> nat list" where
  \<comment> \<open>the values of \<open>for(auto j = 1; j < l; ++j)\<close>\<close>
  "full_range l = [1..<unat l]"

definition is_even :: "size_t \<Rightarrow> bool" where
  "is_even l \<longleftrightarrow> l mod 2 = 0"

text \<open>The three \<open>case\<close> bodies for interleaved data; \<open>case 3\<close> and \<open>case 2\<close> fall through.\<close>

definition hs_case1 :: "size_t list \<Rightarrow> size_t list \<Rightarrow> error + hs_op list" where
  "hs_case1 len istride' =
     (let l0 = len ! 0; s0 = istride' ! 0 in
      seq [rd istride' [] [ImagZero 0],
           cond (is_even l0) (rd istride' [0] [ImagZero (s0 * (l0 div 2))])])"

definition hs_case2 :: "size_t list \<Rightarrow> size_t list \<Rightarrow> error + hs_op list" where
  "hs_case2 len istride' =
     (let l0 = len ! 0; l1 = len ! 1; s0 = istride' ! 0; s1 = istride' ! 1 in
      seq [cond (is_even l1) (rd istride' [1] [ImagZero (s1 * (l1 div 2))]),
           cond (is_even l0 \<and> is_even l1)
             (rd istride' [0, 1] [ImagZero (s0 * (l0 div 2) + s1 * (l1 div 2))]),
           seq (map (\<lambda>i. rd istride' [0] [ConjCopy (s0 * (l0 - of_nat i)) (s0 * of_nat i)])
                  (half_range l0)),
           cond (is_even l1)
             (seq (map (\<lambda>i. rd istride' [0, 1]
                      [ConjCopy (s0 * (l0 - of_nat i) + s1 * (l1 div 2))
                                (s0 * of_nat i + s1 * (l1 div 2))])
                    (half_range l0)))])"

definition hs_case3 :: "size_t list \<Rightarrow> size_t list \<Rightarrow> error + hs_op list" where
  "hs_case3 len istride' =
     (let l0 = len ! 0; l1 = len ! 1; l2 = len ! 2;
          s0 = istride' ! 0; s1 = istride' ! 1; s2 = istride' ! 2 in
      seq [cond (is_even l2) (rd istride' [2] [ImagZero (s2 * (l2 div 2))]),
           cond (is_even l0 \<and> is_even l2)
             (rd istride' [0, 2] [ImagZero (s0 * (l0 div 2) + s2 * (l2 div 2))]),
           cond (is_even l1 \<and> is_even l2)
             (rd istride' [1, 2] [ImagZero (s1 * (l1 div 2) + s2 * (l2 div 2))]),
           cond (is_even l0 \<and> is_even l1 \<and> is_even l2)
             (rd istride' [0, 1, 2]
                [ImagZero (s0 * (l0 div 2) + s1 * (l1 div 2) + s2 * (l2 div 2))]),
           \<comment> \<open>y-axis\<close>
           seq (map (\<lambda>j. rd istride' [1] [ConjCopy (s1 * (l1 - of_nat j)) (s1 * of_nat j)])
                  (half_range l1)),
           \<comment> \<open>y-axis at x-nyquist\<close>
           cond (is_even l0)
             (seq (map (\<lambda>j. rd istride' [0, 1]
                      [ConjCopy (s0 * (l0 div 2) + s1 * (l1 - of_nat j))
                                (s0 * (l0 div 2) + s1 * of_nat j)])
                    (half_range l1))),
           \<comment> \<open>x-axis\<close>
           seq (map (\<lambda>i. rd istride' [0] [ConjCopy (s0 * (l0 - of_nat i)) (s0 * of_nat i)])
                  (half_range l0)),
           \<comment> \<open>x-axis at y-nyquist\<close>
           cond (is_even l1)
             (seq (map (\<lambda>i. rd istride' [0, 1]
                      [ConjCopy (s0 * (l0 - of_nat i) + s1 * (l1 div 2))
                                (s0 * of_nat i + s1 * (l1 div 2))])
                    (half_range l0))),
           \<comment> \<open>x-y plane\<close>
           seq (map (\<lambda>i. seq (map (\<lambda>j. rd istride' [0, 1]
                      [ConjCopy (s0 * (l0 - of_nat i) + s1 * (l1 - of_nat j))
                                (s0 * of_nat i + s1 * of_nat j)])
                    (full_range l1)))
                  (half_range l0)),
           cond (is_even l2)
             (seq [\<comment> \<open>x-axis at z-nyquist\<close>
                   seq (map (\<lambda>i. rd istride' [0, 2]
                          [ConjCopy (s0 * (l0 - of_nat i) + s2 * (l2 div 2))
                                    (s0 * of_nat i + s2 * (l2 div 2))])
                        (half_range l0)),
                   \<comment> \<open>x-axis at yz-nyquist: the source repeats the indices of the loop before\<close>
                   cond (is_even l1)
                     (seq (map (\<lambda>i. rd istride' [0, 2]
                              [ConjCopy (s0 * (l0 - of_nat i) + s2 * (l2 div 2))
                                        (s0 * of_nat i + s2 * (l2 div 2))])
                            (half_range l0))),
                   \<comment> \<open>y-axis at z-nyquist\<close>
                   seq (map (\<lambda>j. rd istride' [1, 2]
                          [ConjCopy (s1 * (l1 - of_nat j) + s2 * (l2 div 2))
                                    (s1 * of_nat j + s2 * (l2 div 2))])
                        (half_range l1)),
                   \<comment> \<open>y-axis at xz-nyquist\<close>
                   cond (is_even l0)
                     (seq (map (\<lambda>j. rd istride' [0, 1, 2]
                              [ConjCopy (s0 * (l0 div 2) + s1 * (l1 - of_nat j) + s2 * (l2 div 2))
                                        (s0 * (l0 div 2) + s1 * of_nat j + s2 * (l2 div 2))])
                            (half_range l1))),
                   \<comment> \<open>x-y plane at z-nyquist\<close>
                   seq (map (\<lambda>i. seq (map (\<lambda>j. rd istride' [0, 1, 2]
                              [ConjCopy (s0 * (l0 - of_nat i) + s1 * (l1 - of_nat j)
                                           + s2 * (l2 div 2))
                                        (s0 * of_nat i + s1 * of_nat j + s2 * (l2 div 2))])
                            (full_range l1)))
                          (half_range l0))])])"

definition interleaved_batch :: "size_t list \<Rightarrow> size_t list \<Rightarrow> error + hs_op list" where
  \<comment> \<open>\<open>switch(length.size())\<close> for complex interleaved data\<close>
  "interleaved_batch len istride' =
     (if length len = 3 then seq [hs_case3 len istride', hs_case2 len istride', hs_case1 len istride']
      else if length len = 2 then seq [hs_case2 len istride', hs_case1 len istride']
      else if length len = 1 then hs_case1 len istride'
      else Inl (RuntimeError ''Invalid dimension for imposeHermitianSymmetry''))"

definition planar_batch ::
  "size_t list \<Rightarrow> size_t list \<Rightarrow> size_t \<Rightarrow> 'f buffer \<Rightarrow> error + ('f :: zero) buffer" where
  \<comment> \<open>\<open>switch(length.size())\<close> for complex planar data; \<open>idata\<close> is the second buffer\<close>
  "planar_batch len istride' base idata =
     (if length len = 3 then Inl (RuntimeError ''Not implemented'')
      else if length len = 2 then Inl (RuntimeError ''Not implemented'')
      else if length len = 1 then
        (let idata = idata(unat base + 0 := 0) in
         if len ! 0 mod 2 = 0 then
           ebind (vector_at istride' 0) (\<lambda>s0.
             Inr (idata(unat base + unat (s0 * (len ! 0 div 2)) := 0)))
         else Inr idata)
      else Inl (RuntimeError ''Invalid dimension for imposeHermitianSymmetry''))"

text \<open>The loops over the batches, \<open>ibatch = 0, \<dots>, nbatch - 1\<close>.\<close>

fun interleaved_loop ::
  "size_t list \<Rightarrow> size_t list \<Rightarrow> size_t \<Rightarrow> nat list \<Rightarrow> 'f buffer
     \<Rightarrow> error + ('f :: {zero, uminus}) buffer" where
  "interleaved_loop len istride' idist' [] data = Inr data"
| "interleaved_loop len istride' idist' (ibatch # rest) data =
     ebind (interleaved_batch len istride') (\<lambda>ops.
       interleaved_loop len istride' idist' rest
         (foldl (apply_op (of_nat ibatch * idist')) data ops))"

fun planar_loop ::
  "size_t list \<Rightarrow> size_t list \<Rightarrow> size_t \<Rightarrow> nat list \<Rightarrow> 'f buffer
     \<Rightarrow> error + ('f :: zero) buffer" where
  "planar_loop len istride' idist' [] idata = Inr idata"
| "planar_loop len istride' idist' (ibatch # rest) idata =
     ebind (planar_batch len istride' (of_nat ibatch * idist') idata)
       (planar_loop len istride' idist' rest)"

definition impose_hermitian_symmetry ::
  "'f buffer list \<Rightarrow> size_t list \<Rightarrow> size_t list \<Rightarrow> size_t \<Rightarrow> size_t
     \<Rightarrow> error + ('f :: {zero, uminus}) buffer list" where
  "impose_hermitian_symmetry vals len istride' idist' nbatch' =
     (if length vals = 1 then
        ebind (interleaved_loop len istride' idist' [0..<unat nbatch'] (vals ! 0))
          (\<lambda>data. Inr [data])
      else if length vals = 2 then
        ebind (planar_loop len istride' idist' [0..<unat nbatch'] (vals ! 1))
          (\<lambda>idata. Inr [vals ! 0, idata])
      else Inl (RuntimeError ''Invalid data type''))"

section \<open>Random test input: \<open>set_input\<close>\<close>

text \<open>
  The engine \<open>std::mt19937\<close> of the C++ standard library, as the standard defines it: the
  state is the last 624 words of a sequence of 32-bit words; seeding with a value sets
  the first word to the value modulo \<open>2 ^ 32\<close> and each further word \<open>i\<close> from the word
  before it; a draw appends the next word of the sequence, computed from the words 0, 1
  and 397 of the state, and returns it tempered. \<open>gen.max()\<close> is \<open>2 ^ 32 - 1\<close>. The
  parameters are those of \<open>mersenne_twister_engine\<close> for \<open>mt19937\<close>: word size 32, state
  size 624, shift size 397, mask bits 31, xor mask \<open>0x9908b0df\<close>, tempering
  \<open>u = 11\<close>, \<open>d = 0xffffffff\<close>, \<open>s = 7\<close>, \<open>b = 0x9d2c5680\<close>, \<open>t = 15\<close>, \<open>c = 0xefc60000\<close>,
  \<open>l = 18\<close>, and initialization multiplier 1812433253.
\<close>

type_synonym mt19937 = "32 word list"

fun mt_word :: "32 word \<Rightarrow> nat \<Rightarrow> 32 word" where
  "mt_word s 0 = s"
| "mt_word s (Suc i) =
     (let prev = mt_word s i in 1812433253 * (prev XOR drop_bit 30 prev) + of_nat (Suc i))"

definition mt19937_seed :: "size_t \<Rightarrow> mt19937" where
  "mt19937_seed sd = map (mt_word (ucast sd)) [0..<624]"

definition temper :: "32 word \<Rightarrow> 32 word" where
  "temper x =
     (let z = x XOR drop_bit 11 x;
          z = z XOR (push_bit 7 z AND 0x9D2C5680);
          z = z XOR (push_bit 15 z AND 0xEFC60000)
      in z XOR drop_bit 18 z)"

definition twist :: "32 word \<Rightarrow> 32 word \<Rightarrow> 32 word \<Rightarrow> 32 word" where
  "twist x0 x1 xm =
     (let y = (x0 AND 0x80000000) OR (x1 AND 0x7FFFFFFF)
      in xm XOR drop_bit 1 y XOR (if y AND 1 = 1 then 0x9908B0DF else 0))"

definition mt19937_next :: "mt19937 \<Rightarrow> 32 word \<times> mt19937" where
  "mt19937_next gen =
     (let x = twist (gen ! 0) (gen ! 1) (gen ! 397) in (temper x, tl gen @ [x]))"

definition mt19937_max :: "32 word" where
  "mt19937_max = 0xFFFFFFFF"

text \<open>
  \<open>compute_index\<close>, \<open>count_iters\<close>, \<open>compute_partition_count\<close>, \<open>partition_base\<close> and
  \<open>partition_rowmajor\<close>. A scalar of the source and a tuple of two or three are a list of
  one, two or three components here. The partition count depends on the build: without
  \<open>BUILD_CLIENTS_TESTS_OPENMP\<close> (\<open>None\<close>) it is 1, with it (\<open>Some procs\<close>) it depends on the
  value \<open>procs\<close> of \<open>omp_get_num_procs()\<close>. In \<open>partition_base\<close> a partition count of
  zero divides by zero.
\<close>

definition compute_index :: "size_t list \<Rightarrow> size_t list \<Rightarrow> size_t \<Rightarrow> size_t" where
  "compute_index index stride base = sum_list (map2 (*) index stride) + base"

definition count_iters :: "size_t list \<Rightarrow> size_t" where
  "count_iters i = prod_list i"

definition compute_partition_count :: "nat option \<Rightarrow> size_t list \<Rightarrow> size_t" where
  "compute_partition_count omp len =
     (case omp of
        None \<Rightarrow> 1
      | Some procs \<Rightarrow>
          (let iters = count_iters len;
               hw_threads = min 8 (of_nat procs)
           in if hw_threads = 0 then 1
              else min hw_threads ((iters + 2048 + 1) div 2048)))"

definition partition_base :: "size_t \<Rightarrow> size_t \<Rightarrow> error + (size_t \<times> size_t) list" where
  "partition_base len num_parts =
     (let num_parts = min len num_parts in
      if num_parts = 0 then Inl UndefinedBehaviour
      else
        let partition_size = len div num_parts;
            ret = map (\<lambda>i. (of_nat i * partition_size, of_nat i * partition_size + partition_size))
                    [0..<unat num_parts]
        in Inr (butlast ret @ [(fst (last ret), len)]))"

definition partition_rowmajor ::
  "nat option \<Rightarrow> size_t list \<Rightarrow> error + (size_t list \<times> size_t list) list" where
  "partition_rowmajor omp len =
     ebind (partition_base (len ! 0) (compute_partition_count omp len)) (\<lambda>partitions.
       Inr (map (\<lambda>(first, second).
              (first # replicate (length len - 1) 0, second # tl len)) partitions))"

definition increment_base :: "size_t \<Rightarrow> size_t \<Rightarrow> size_t \<times> bool" where
  \<comment> \<open>Modelled from the spec: \<open>increment_base\<close> is defined in \<open>increment.h\<close>, which is missing;
      the next value of one component of a linearized index below \<open>length\<close>, and false
      with the component back at 0 after the last one\<close>
  "increment_base index len = (if index < len - 1 then (index + 1, True) else (0, False))"

fun increment_rowmajor :: "size_t list \<Rightarrow> size_t list \<Rightarrow> size_t list \<times> bool" where
  \<comment> \<open>Modelled from the spec: \<open>increment_rowmajor\<close> is defined in \<open>increment.h\<close>, which is
      missing; the next index in row-major order, the last component running fastest\<close>
  "increment_rowmajor (i # index) (l # len) =
     (case increment_rowmajor index len of
        (index', True) \<Rightarrow> (i # index', True)
      | (index', False) \<Rightarrow> (case increment_base i l of (i', again) \<Rightarrow> (i' # index', again)))"
| "increment_rowmajor index len = ([], False)"

text \<open>
  The body of the \<open>do\<close> loop for the three layouts. \<open>fdiv a b\<close> stands for the quotient
  \<open>(Tfloat)a / (Tfloat)b\<close> in the floating-point type \<open>'f\<close> of the template. The complex
  element \<open>i\<close> of an interleaved buffer is the pair of scalars \<open>2i\<close> and \<open>2i + 1\<close>. In the
  planar branch the two draws are the arguments of one constructor call, which the
  compiler may evaluate in either order: \<open>ltr\<close> says that it evaluates the first one first.
\<close>

definition put_interleaved ::
  "(32 word \<Rightarrow> 32 word \<Rightarrow> 'f) \<Rightarrow> size_t \<Rightarrow> mt19937 \<Rightarrow> 'f buffer list \<Rightarrow> mt19937 \<times> 'f buffer list" where
  "put_interleaved fdiv i gen input =
     (case mt19937_next gen of (a, gen) \<Rightarrow>
      case mt19937_next gen of (b, gen) \<Rightarrow>
        (let x = fdiv a mt19937_max; y = fdiv b mt19937_max; idata = input ! 0
         in (gen, input[0 := idata(2 * unat i := x, 2 * unat i + 1 := y)])))"

definition put_planar ::
  "(32 word \<Rightarrow> 32 word \<Rightarrow> 'f) \<Rightarrow> bool \<Rightarrow> size_t \<Rightarrow> mt19937 \<Rightarrow> 'f buffer list
     \<Rightarrow> mt19937 \<times> 'f buffer list" where
  "put_planar fdiv ltr i gen input =
     (case mt19937_next gen of (a, gen) \<Rightarrow>
      case mt19937_next gen of (b, gen) \<Rightarrow>
        (let val = (if ltr then (fdiv a mt19937_max, fdiv b mt19937_max)
                    else (fdiv b mt19937_max, fdiv a mt19937_max));
             ireal = input ! 0; iimag = input ! 1
         in (gen, input[0 := ireal(unat i := fst val), 1 := iimag(unat i := snd val)])))"

definition put_real ::
  "(32 word \<Rightarrow> 32 word \<Rightarrow> 'f) \<Rightarrow> size_t \<Rightarrow> mt19937 \<Rightarrow> 'f buffer list \<Rightarrow> mt19937 \<times> 'f buffer list" where
  "put_real fdiv i gen input =
     (case mt19937_next gen of (a, gen) \<Rightarrow>
        (let val = fdiv a mt19937_max; idata = input ! 0
         in (gen, input[0 := idata(unat i := val)])))"

text \<open>
  The \<open>do\<close> loop over the indices of a partition, the loop over the partitions and the
  loop over the batches. The \<open>do\<close> loop has no bound in the source; the first argument is
  the number of iterations the model may run, and \<open>None\<close> says that they did not suffice.
  The partitions, which OpenMP may run in parallel, are run one after the other.
\<close>

fun fill_loop ::
  "nat \<Rightarrow> (size_t \<Rightarrow> mt19937 \<Rightarrow> 'f buffer list \<Rightarrow> mt19937 \<times> 'f buffer list)
     \<Rightarrow> size_t list \<Rightarrow> size_t list \<Rightarrow> size_t \<Rightarrow> size_t list \<Rightarrow> mt19937 \<Rightarrow> 'f buffer list
     \<Rightarrow> 'f buffer list option" where
  "fill_loop 0 put len stride i_base index gen input = None"
| "fill_loop (Suc fuel) put len stride i_base index gen input =
     (let i = compute_index index stride i_base in
      case put i gen input of (gen, input) \<Rightarrow>
      case increment_rowmajor index len of
        (index, True) \<Rightarrow> fill_loop fuel put len stride i_base index gen input
      | (index, False) \<Rightarrow> Some input)"

fun partitions_loop ::
  "nat \<Rightarrow> (size_t \<Rightarrow> mt19937 \<Rightarrow> 'f buffer list \<Rightarrow> mt19937 \<times> 'f buffer list)
     \<Rightarrow> size_t list \<Rightarrow> size_t \<Rightarrow> (size_t list \<times> size_t list) list \<Rightarrow> 'f buffer list
     \<Rightarrow> 'f buffer list option" where
  "partitions_loop fuel put stride i_base [] input = Some input"
| "partitions_loop fuel put stride i_base ((index, len) # partitions) input =
     (case fill_loop fuel put len stride i_base index
             (mt19937_seed (compute_index index stride i_base)) input of
        None \<Rightarrow> None
      | Some input \<Rightarrow> partitions_loop fuel put stride i_base partitions input)"

fun batch_loop ::
  "nat \<Rightarrow> (size_t \<Rightarrow> mt19937 \<Rightarrow> 'f buffer list \<Rightarrow> mt19937 \<times> 'f buffer list)
     \<Rightarrow> size_t list \<Rightarrow> size_t \<Rightarrow> (size_t list \<times> size_t list) list \<Rightarrow> nat \<Rightarrow> size_t
     \<Rightarrow> 'f buffer list \<Rightarrow> 'f buffer list option" where
  "batch_loop fuel put stride idist' partitions 0 i_base input = Some input"
| "batch_loop fuel put stride idist' partitions (Suc n) i_base input =
     (case partitions_loop fuel put stride i_base partitions input of
        None \<Rightarrow> None
      | Some input \<Rightarrow> batch_loop fuel put stride idist' partitions n (i_base + idist') input)"


text \<open>
  \<open>set_input\<close> for a length and a stride of one, two or three components: the \<open>switch\<close>
  on the array type, whose three branches differ in the body of the \<open>do\<close> loop only
  (\<open>put_element\<close>) and in the buffers they take from \<open>input\<close>, reading past its end
  being undefined. The counter \<open>b\<close> of the batches is an \<open>int\<close>, which overflows when there
  are more than \<open>2 ^ 31 - 1\<close> batches.
\<close>

definition put_element ::
  "(32 word \<Rightarrow> 32 word \<Rightarrow> 'f) \<Rightarrow> bool \<Rightarrow> rocfft_array_type
     \<Rightarrow> size_t \<Rightarrow> mt19937 \<Rightarrow> 'f buffer list \<Rightarrow> mt19937 \<times> 'f buffer list" where
  \<comment> \<open>for an array type that is not set the \<open>default\<close> branch throws and writes nothing,
      see \<open>set_input_dim\<close>\<close>
  "put_element fdiv ltr itype' =
     (case itype' of
        rocfft_array_type_complex_interleaved \<Rightarrow> put_interleaved fdiv
      | rocfft_array_type_hermitian_interleaved \<Rightarrow> put_interleaved fdiv
      | rocfft_array_type_complex_planar \<Rightarrow> put_planar fdiv ltr
      | rocfft_array_type_hermitian_planar \<Rightarrow> put_planar fdiv ltr
      | _ \<Rightarrow> put_real fdiv)"

definition set_input_dim ::
  "nat \<Rightarrow> (32 word \<Rightarrow> 32 word \<Rightarrow> 'f) \<Rightarrow> bool \<Rightarrow> nat option \<Rightarrow> 'f buffer list
     \<Rightarrow> rocfft_array_type \<Rightarrow> size_t list \<Rightarrow> size_t list \<Rightarrow> size_t \<Rightarrow> size_t
     \<Rightarrow> (error + 'f buffer list) option" where
  "set_input_dim fuel fdiv ltr omp input itype' whole_length istride' idist' nbatch' =
     (if itype' = rocfft_array_type_unset
      then Some (Inl (RuntimeError ''Input layout format not yet supported''))
      else if length input < nbuffer itype' then Some (Inl UndefinedBehaviour)
      else
        case partition_rowmajor omp whole_length of
          Inl e \<Rightarrow> Some (Inl e)
        | Inr partitions \<Rightarrow>
            if 2 ^ 31 \<le> unat nbatch' then Some (Inl UndefinedBehaviour)
            else map_option Inr
                   (batch_loop fuel (put_element fdiv ltr itype') istride' idist' partitions
                      (unat nbatch') 0 input))"

text \<open>
  \<open>set_input\<close> for vectors: lengths and strides of one, two or three dimensions are
  handed on as scalars or tuples, any other number of lengths calls \<open>abort()\<close>. Reading
  a stride that the vector \<open>istride\<close> does not have is undefined.
\<close>

definition set_input ::
  "nat \<Rightarrow> (32 word \<Rightarrow> 32 word \<Rightarrow> 'f) \<Rightarrow> bool \<Rightarrow> nat option \<Rightarrow> 'f buffer list
     \<Rightarrow> rocfft_array_type \<Rightarrow> size_t list \<Rightarrow> size_t list \<Rightarrow> size_t \<Rightarrow> size_t
     \<Rightarrow> (error + 'f buffer list) option" where
  "set_input fuel fdiv ltr omp input itype' len istride' idist' nbatch' =
     (if length len = 1 \<or> length len = 2 \<or> length len = 3 then
        (if length istride' < length len then Some (Inl UndefinedBehaviour)
         else set_input_dim fuel fdiv ltr omp input itype' len (take (length len) istride')
                idist' nbatch')
      else Some (Inl Aborted))"

text \<open>
  What \<open>set_input\<close> does, in words, to compare it with: in every batch \<open>b\<close>, with the
  offset \<open>b * idist\<close>, and for every partition in turn, one generator is seeded with the
  linearized index of the first element of the partition, and the elements of the
  partition take its draws one after the other, in row-major order. \<open>all_indices\<close> lists
  the indices below a length in row-major order, \<open>partition_indices\<close> those of a
  partition, whose first component runs from that of \<open>first\<close> to below that of \<open>second\<close>.
  \<open>indices_after\<close> lists the indices that follow an index.
\<close>

fun all_indices :: "size_t list \<Rightarrow> size_t list list" where
  "all_indices [] = [[]]"
| "all_indices (u # us) =
     concat (map (\<lambda>j. map ((#) (of_nat j)) (all_indices us)) [0..<unat u])"

definition partition_indices :: "size_t list \<Rightarrow> size_t list \<Rightarrow> size_t list list" where
  "partition_indices first second =
     concat (map (\<lambda>j. map ((#) (of_nat j)) (all_indices (tl second)))
               [unat (hd first)..<unat (hd second)])"

fun indices_after :: "size_t list \<Rightarrow> size_t list \<Rightarrow> size_t list list" where
  "indices_after (i # index) (u # us) =
     map ((#) i) (indices_after index us)
     @ concat (map (\<lambda>j. map ((#) (of_nat j)) (all_indices us)) [Suc (unat i)..<unat u])"
| "indices_after index us = []"

definition fill_spec ::
  "(size_t \<Rightarrow> mt19937 \<Rightarrow> 'f buffer list \<Rightarrow> mt19937 \<times> 'f buffer list)
     \<Rightarrow> size_t list \<Rightarrow> size_t \<Rightarrow> size_t list list \<Rightarrow> mt19937 \<Rightarrow> 'f buffer list
     \<Rightarrow> mt19937 \<times> 'f buffer list" where
  "fill_spec put stride i_base indices gen input =
     foldl (\<lambda>(gen, input) index. put (compute_index index stride i_base) gen input)
       (gen, input) indices"

definition set_input_spec ::
  "(size_t \<Rightarrow> mt19937 \<Rightarrow> 'f buffer list \<Rightarrow> mt19937 \<times> 'f buffer list)
     \<Rightarrow> size_t list \<Rightarrow> size_t \<Rightarrow> (size_t list \<times> size_t list) list \<Rightarrow> nat
     \<Rightarrow> 'f buffer list \<Rightarrow> 'f buffer list" where
  "set_input_spec put stride idist' partitions nbatch' input =
     foldl (\<lambda>input b.
        foldl (\<lambda>input (first, second).
           snd (fill_spec put stride (of_nat b * idist') (partition_indices first second)
                  (mt19937_seed (compute_index first stride (of_nat b * idist'))) input))
          input partitions)
       input [0..<nbatch']"

text \<open>
  A partition is covered by a number of iterations when its first index is below its
  second one in every component, fewer indices follow the first one than iterations
  are allowed, and its indices are the first one and those that follow it.
\<close>

definition covered :: "nat \<Rightarrow> size_t list \<times> size_t list \<Rightarrow> bool" where
  "covered fuel x \<longleftrightarrow>
     list_all2 (<) (fst x) (snd x)
     \<and> length (indices_after (fst x) (snd x)) < fuel
     \<and> partition_indices (fst x) (snd x) = fst x # indices_after (fst x) (snd x)"

text \<open>
  A request of two real values in one batch, with one buffer of zeros, and the stored
  value the draw itself in place of its quotient by \<open>gen.max()\<close>.
\<close>

definition two_reals :: "(error + 32 word buffer list) option" where
  "two_reals = set_input 2 (\<lambda>a b. a) True None [\<lambda>i. 0] rocfft_array_type_real [2] [1] 2 1"


section \<open>Properties of the test parameters\<close>

subsection \<open>Strides\<close>

lemma stride_loop_length: "length (stride_loop len rc n st) = length st"
  by (induction n arbitrary: st) (simp_all add: Let_def)

lemma stride_loop_keeps: "n \<le> j \<Longrightarrow> stride_loop len rc n st ! j = st ! j"
  by (induction n arbitrary: st) (simp_all add: Let_def)

lemma stride_loop_step:
  "i < n \<Longrightarrow> n < length st \<Longrightarrow>
   stride_loop len rc n st ! i =
     stride_loop len rc n st ! (i + 1) *
       (if rc \<and> i + 2 = length len then 2 * (len ! (i + 1) div 2 + 1) else len ! (i + 1))"
proof (induction n arbitrary: st)
  case 0
  then show ?case by simp
next
  case (Suc n)
  let ?st = "st[n := st ! (n + 1) *
     (if rc \<and> n + 2 = length len then 2 * (len ! (n + 1) div 2 + 1) else len ! (n + 1))]"
  have unfold: "stride_loop len rc (Suc n) st = stride_loop len rc n ?st"
    by (simp add: Let_def)
  show ?case
  proof (cases "i < n")
    case True
    with Suc.prems Suc.IH [of ?st] show ?thesis
      unfolding unfold by simp
  next
    case False
    with Suc.prems have i: "i = n" by simp
    have "stride_loop len rc n ?st ! n = ?st ! n"
      by (rule stride_loop_keeps) simp
    moreover have "stride_loop len rc n ?st ! (n + 1) = ?st ! (n + 1)"
      by (rule stride_loop_keeps) simp
    ultimately show ?thesis
      unfolding unfold i using Suc.prems by simp
  qed
qed

lemma compute_stride_unset:
  assumes "len \<noteq> []"
  shows "compute_stride len [] rc =
           Inr (stride_loop len rc (length len - 1)
                  ((replicate (length len) 0)[length len - 1 := 1]))"
  using assms by (simp add: compute_stride_def Let_def)

lemma compute_stride_row_major:
  assumes "len \<noteq> []"
  shows "\<exists>s. compute_stride len [] rc = Inr s
             \<and> length s = length len
             \<and> last s = 1
             \<and> (\<forall>i. i + 1 < length len \<longrightarrow>
                  s ! i = s ! (i + 1) *
                    (if rc \<and> i + 2 = length len
                     then 2 * (len ! (i + 1) div 2 + 1) else len ! (i + 1)))"
proof -
  let ?n = "length len"
  let ?st = "(replicate ?n (0::size_t))[?n - 1 := 1]"
  let ?s = "stride_loop len rc (?n - 1) ?st"
  from assms have n: "0 < ?n" by simp
  have len_s: "length ?s = ?n" by (simp add: stride_loop_length)
  have "?s ! (?n - 1) = ?st ! (?n - 1)" by (rule stride_loop_keeps) simp
  with n have "?s ! (?n - 1) = 1" by simp
  with len_s n have last_s: "last ?s = 1"
    by (metis last_conv_nth length_greater_0_conv)
  have step: "\<forall>i. i + 1 < ?n \<longrightarrow>
      ?s ! i = ?s ! (i + 1) *
        (if rc \<and> i + 2 = ?n then 2 * (len ! (i + 1) div 2 + 1) else len ! (i + 1))"
  proof (intro allI impI)
    fix i assume "i + 1 < ?n"
    then have "i < ?n - 1" and "?n - 1 < length ?st" by simp_all
    then show "?s ! i = ?s ! (i + 1) *
        (if rc \<and> i + 2 = ?n then 2 * (len ! (i + 1) div 2 + 1) else len ! (i + 1))"
      by (rule stride_loop_step)
  qed
  from compute_stride_unset [OF assms] len_s last_s step show ?thesis by blast
qed

lemma compute_stride_row_major_lengths:
  assumes "len \<noteq> []"
  shows "\<exists>s. compute_stride len [] rc = Inr s
             \<and> row_major (butlast len @ [if rc then 2 * (last len div 2 + 1) else last len]) s"
proof -
  from compute_stride_row_major [OF assms, of rc] obtain s where
    s: "compute_stride len [] rc = Inr s" "length s = length len" "last s = 1"
    and step: "\<forall>i. i + 1 < length len \<longrightarrow>
        s ! i = s ! (i + 1) *
          (if rc \<and> i + 2 = length len then 2 * (len ! (i + 1) div 2 + 1) else len ! (i + 1))"
    by blast
  let ?len = "butlast len @ [if rc then 2 * (last len div 2 + 1) else last len]"
  have l: "length ?len = length len" using assms by simp
  have nth: "?len ! (i + 1) =
      (if rc \<and> i + 2 = length len then 2 * (len ! (i + 1) div 2 + 1) else len ! (i + 1))"
    if "i + 1 < length len" for i
  proof (cases "i + 2 = length len")
    case True
    then have i: "i + 1 = length (butlast len)" by simp
    have "?len ! length (butlast len) = (if rc then 2 * (last len div 2 + 1) else last len)"
      by (simp only: nth_append_length)
    with i have "?len ! (i + 1) = (if rc then 2 * (last len div 2 + 1) else last len)"
      by simp
    moreover from True have e: "length len - 1 = i + 1" by simp
    from assms have "last len = len ! (length len - 1)"
      by (rule last_conv_nth)
    with e have "last len = len ! (i + 1)"
      by simp
    ultimately show ?thesis using True by simp
  next
    case False
    with that have "i + 1 < length (butlast len)" by simp
    then have "?len ! (i + 1) = len ! (i + 1)"
      by (simp add: nth_append nth_butlast)
    with False show ?thesis by simp
  qed
  from s(2) assms have "s \<noteq> []" by auto
  with s step nth l have "row_major ?len s"
    unfolding row_major_def by auto
  with s(1) show ?thesis by blast
qed


lemma list_update_last: "xs \<noteq> [] \<Longrightarrow> xs[length xs - Suc 0 := y] = butlast xs @ [y]"
  by (cases xs rule: rev_cases) simp_all

lemma ilength_istride_lengths:
  assumes "length_v p \<noteq> []"
  shows "\<exists>il. ilength p = Inr il \<and> il \<noteq> []
          \<and> butlast il @ [if placement p = rocfft_placement_inplace
                               \<and> transform_type p = rocfft_transform_type_real_forward
                            then 2 * (last il div 2 + 1) else last il]
              = istride_lengths p"
proof (cases "transform_type p = rocfft_transform_type_real_inverse")
  case True
  let ?lv = "length_v p"
  from assms have "?lv ! (length ?lv - 1) = last ?lv"
    by (simp add: last_conv_nth)
  with True assms have il: "ilength p = Inr (butlast ?lv @ [last ?lv div 2 + 1])"
    by (simp add: ilength_def dim_def Let_def list_update_last)
  with True show ?thesis
    by (simp add: istride_lengths_def Let_def)
next
  case False
  with assms have "ilength p = Inr (length_v p)"
    by (simp add: ilength_def)
  with False assms show ?thesis
    by (auto simp: istride_lengths_def Let_def)
qed

lemma olength_ostride_lengths:
  assumes "length_v p \<noteq> []"
  shows "\<exists>ol. olength p = Inr ol \<and> ol \<noteq> []
          \<and> butlast ol @ [if placement p = rocfft_placement_inplace
                               \<and> transform_type p = rocfft_transform_type_real_inverse
                            then 2 * (last ol div 2 + 1) else last ol]
              = ostride_lengths p"
proof (cases "transform_type p = rocfft_transform_type_real_forward")
  case True
  let ?lv = "length_v p"
  from assms have "?lv ! (length ?lv - 1) = last ?lv"
    by (simp add: last_conv_nth)
  with True assms have ol: "olength p = Inr (butlast ?lv @ [last ?lv div 2 + 1])"
    by (simp add: olength_def dim_def Let_def list_update_last)
  with True show ?thesis
    by (simp add: ostride_lengths_def Let_def)
next
  case False
  with assms have "olength p = Inr (length_v p)"
    by (simp add: olength_def)
  with False assms show ?thesis
    by (auto simp: ostride_lengths_def Let_def)
qed

lemma compute_istride_row_major:
  assumes "length_v p \<noteq> []" and "istride p = []"
  shows "\<exists>s. compute_istride p = Inr (p\<lparr>istride := s\<rparr>) \<and> row_major (istride_lengths p) s"
proof -
  from ilength_istride_lengths [OF assms(1)] obtain il where
    il: "ilength p = Inr il" "il \<noteq> []"
    and eq: "butlast il @ [if placement p = rocfft_placement_inplace
                               \<and> transform_type p = rocfft_transform_type_real_forward
                            then 2 * (last il div 2 + 1) else last il]
              = istride_lengths p"
    by blast
  from compute_stride_row_major_lengths [OF il(2),
      of "placement p = rocfft_placement_inplace
          \<and> transform_type p = rocfft_transform_type_real_forward"] eq
  obtain s where s: "compute_stride il [] (placement p = rocfft_placement_inplace
          \<and> transform_type p = rocfft_transform_type_real_forward) = Inr s"
    and rm: "row_major (istride_lengths p) s"
    by auto
  from il(1) s assms(2) have "compute_istride p = Inr (p\<lparr>istride := s\<rparr>)"
    by (simp add: compute_istride_def ebind_def)
  with rm show ?thesis by blast
qed

lemma compute_ostride_row_major:
  assumes "length_v p \<noteq> []" and "ostride p = []"
  shows "\<exists>s. compute_ostride p = Inr (p\<lparr>ostride := s\<rparr>) \<and> row_major (ostride_lengths p) s"
proof -
  from olength_ostride_lengths [OF assms(1)] obtain ol where
    ol: "olength p = Inr ol" "ol \<noteq> []"
    and eq: "butlast ol @ [if placement p = rocfft_placement_inplace
                               \<and> transform_type p = rocfft_transform_type_real_inverse
                            then 2 * (last ol div 2 + 1) else last ol]
              = ostride_lengths p"
    by blast
  from compute_stride_row_major_lengths [OF ol(2),
      of "placement p = rocfft_placement_inplace
          \<and> transform_type p = rocfft_transform_type_real_inverse"] eq
  obtain s where s: "compute_stride ol [] (placement p = rocfft_placement_inplace
          \<and> transform_type p = rocfft_transform_type_real_inverse) = Inr s"
    and rm: "row_major (ostride_lengths p) s"
    by auto
  from ol(1) s assms(2) have "compute_ostride p = Inr (p\<lparr>ostride := s\<rparr>)"
    by (simp add: compute_ostride_def ebind_def)
  with rm show ?thesis by blast
qed

lemma set_iotypes_keeps:
  "length_v (set_iotypes p) = length_v p" "istride (set_iotypes p) = istride p"
  "ostride (set_iotypes p) = ostride p" "transform_type (set_iotypes p) = transform_type p"
  "placement (set_iotypes p) = placement p"
  by (simp_all add: set_iotypes_def Let_def)

lemma set_idist_keeps:
  "set_idist p = Inr q \<Longrightarrow> istride q = istride p \<and> ostride q = ostride p"
  by (auto simp: set_idist_def Let_def ebind_def split: if_splits sum.splits)

lemma set_odist_keeps:
  "set_odist p = Inr q \<Longrightarrow> istride q = istride p \<and> ostride q = ostride p"
  by (auto simp: set_odist_def Let_def ebind_def split: if_splits sum.splits)

lemma compute_isize_keeps:
  "compute_isize p = Inr q \<Longrightarrow> istride q = istride p \<and> ostride q = ostride p"
  by (auto simp: compute_isize_def ebind_def split: sum.splits)

lemma compute_osize_keeps:
  "compute_osize p = Inr q \<Longrightarrow> istride q = istride p \<and> ostride q = ostride p"
  by (auto simp: compute_osize_def ebind_def split: sum.splits)

lemma validate_strides:
  assumes "validate p = Inr q"
  shows "\<exists>p1 p2. compute_istride (set_iotypes p) = Inr p1 \<and> compute_ostride p1 = Inr p2
           \<and> istride q = istride p2 \<and> ostride q = ostride p2"
proof -
  from assms obtain p1 where p1: "compute_istride (set_iotypes p) = Inr p1"
    by (cases "compute_istride (set_iotypes p)") (simp_all add: validate_def ebind_def)
  with assms obtain p2 where p2: "compute_ostride p1 = Inr p2"
    by (cases "compute_ostride p1") (simp_all add: validate_def ebind_def)
  with assms p1 obtain p3 where p3: "set_idist p2 = Inr p3"
    by (cases "set_idist p2") (simp_all add: validate_def ebind_def)
  with assms p1 p2 obtain p4 where p4: "set_odist p3 = Inr p4"
    by (cases "set_odist p3") (simp_all add: validate_def ebind_def)
  with assms p1 p2 p3 obtain p5 where p5: "compute_isize p4 = Inr p5"
    by (cases "compute_isize p4") (simp_all add: validate_def ebind_def)
  with assms p1 p2 p3 p4 have p6: "compute_osize p5 = Inr q"
    by (simp add: validate_def ebind_def)
  from set_idist_keeps [OF p3] set_odist_keeps [OF p4] compute_isize_keeps [OF p5]
    compute_osize_keeps [OF p6]
  have "istride q = istride p2 \<and> ostride q = ostride p2" by simp
  with p1 p2 show ?thesis by blast
qed

text \<open>
  C4. When the strides are left unset, they are filled in row-major order: one stride
  per length, the last one 1 and \<open>stride[i] = stride[i+1] * len[i+1]\<close> (in \<open>size_t\<close>
  arithmetic) for every earlier one. The lengths \<open>len\<close> are those of the request but for
  the last, \<open>L\<close>: the input strides take \<open>L / 2 + 1\<close> for a real-inverse transform and
  \<open>2 * (L / 2 + 1)\<close> for an in-place real-forward one; the output strides take
  \<open>L / 2 + 1\<close> for a real-forward transform and \<open>2 * (L / 2 + 1)\<close> for an in-place
  real-inverse one. This holds of \<open>compute_istride\<close> and \<open>compute_ostride\<close>, which return,
  and of the strides of the parameter set \<open>validate\<close> returns, when it returns.
\<close>

theorem compute_strides_unset_row_major:
  assumes "length_v p \<noteq> []"
  shows "(istride p = [] \<longrightarrow>
            (\<exists>s. compute_istride p = Inr (p\<lparr>istride := s\<rparr>)
                \<and> row_major (istride_lengths p) s))
       \<and> (ostride p = [] \<longrightarrow>
            (\<exists>s. compute_ostride p = Inr (p\<lparr>ostride := s\<rparr>)
                \<and> row_major (ostride_lengths p) s))
       \<and> (istride p = [] \<and> ostride p = [] \<longrightarrow>
            (\<forall>q. validate p = Inr q \<longrightarrow>
               row_major (istride_lengths p) (istride q)
               \<and> row_major (ostride_lengths p) (ostride q)))"
proof (intro conjI impI allI)
  assume "istride p = []"
  with assms show "\<exists>s. compute_istride p = Inr (p\<lparr>istride := s\<rparr>)
                \<and> row_major (istride_lengths p) s"
    by (rule compute_istride_row_major)
next
  assume "ostride p = []"
  with assms show "\<exists>s. compute_ostride p = Inr (p\<lparr>ostride := s\<rparr>)
                \<and> row_major (ostride_lengths p) s"
    by (rule compute_ostride_row_major)
next
  fix q
  assume unset: "istride p = [] \<and> ostride p = []" and v: "validate p = Inr q"
  let ?p0 = "set_iotypes p"
  have il: "istride_lengths ?p0 = istride_lengths p"
    by (simp add: istride_lengths_def set_iotypes_keeps cong: if_cong)
  from validate_strides [OF v] obtain p1 p2 where
    p1: "compute_istride ?p0 = Inr p1" and p2: "compute_ostride p1 = Inr p2"
    and q: "istride q = istride p2" "ostride q = ostride p2"
    by blast
  from assms unset compute_istride_row_major [of ?p0] obtain si where
    si: "compute_istride ?p0 = Inr (?p0\<lparr>istride := si\<rparr>)" "row_major (istride_lengths ?p0) si"
    by (auto simp: set_iotypes_keeps)
  with p1 have p1_eq: "p1 = ?p0\<lparr>istride := si\<rparr>" by simp
  then have keep: "length_v p1 = length_v p" "ostride p1 = ostride p"
    "transform_type p1 = transform_type p" "placement p1 = placement p"
    by (simp_all add: set_iotypes_keeps)
  then have ol: "ostride_lengths p1 = ostride_lengths p"
    by (simp add: ostride_lengths_def cong: if_cong)
  from assms unset keep compute_ostride_row_major [of p1] obtain so where
    so: "compute_ostride p1 = Inr (p1\<lparr>ostride := so\<rparr>)" "row_major (ostride_lengths p1) so"
    by auto
  with p2 have "p2 = p1\<lparr>ostride := so\<rparr>" by simp
  with p1_eq have "istride p2 = si" "ostride p2 = so" by simp_all
  with q si(2) so(2) il ol
  show "row_major (istride_lengths p) (istride q)" "row_major (ostride_lengths p) (ostride q)"
    by simp_all
qed


lemma validate_r2c_inplace_4x8:
  "validate r2c_inplace_4x8 =
     Inr (r2c_inplace_4x8\<lparr>istride := [10, 1], ostride := [5, 1], idist := 40, odist := 20,
            itype := rocfft_array_type_real, otype := rocfft_array_type_hermitian_interleaved,
            isize := [38], osize := [20]\<rparr>)"
  by (simp add: validate_def r2c_inplace_4x8_def set_iotypes_def
      compute_istride_def compute_ostride_def ebind_def ilength_def olength_def
      compute_stride_def set_idist_def set_odist_def vector_at_def compute_isize_def
      compute_osize_def compute_ptrdiff_def nibuffer_def nobuffer_def dim_def)

lemma validate_c2r_4x8:
  "validate c2r_4x8 =
     Inr (c2r_4x8\<lparr>istride := [5, 1], ostride := [8, 1], idist := 20, odist := 32,
            itype := rocfft_array_type_hermitian_interleaved, otype := rocfft_array_type_real,
            isize := [20], osize := [32]\<rparr>)"
  by (simp add: validate_def c2r_4x8_def set_iotypes_def
      compute_istride_def compute_ostride_def ebind_def ilength_def olength_def
      compute_stride_def set_idist_def set_odist_def vector_at_def compute_isize_def
      compute_osize_def compute_ptrdiff_def nibuffer_def nobuffer_def dim_def)

theorem compute_strides_unset_row_major_witness:
  "length_v r2c_inplace_4x8 = [4, 8]
   \<and> istride_lengths r2c_inplace_4x8 = [4, 10]
   \<and> ostride_lengths r2c_inplace_4x8 = [4, 5]
   \<and> compute_istride r2c_inplace_4x8 = Inr (r2c_inplace_4x8\<lparr>istride := [10, 1]\<rparr>)
   \<and> compute_ostride r2c_inplace_4x8 = Inr (r2c_inplace_4x8\<lparr>ostride := [5, 1]\<rparr>)
   \<and> map_sum id istride (validate r2c_inplace_4x8) = Inr [10, 1]
   \<and> map_sum id ostride (validate r2c_inplace_4x8) = Inr [5, 1]
   \<and> row_major [4, 10] [10, 1]
   \<and> row_major [4, 5] [5, 1]"
proof -
  have lv: "length_v r2c_inplace_4x8 = [4, 8]"
    and unset: "istride r2c_inplace_4x8 = []" "ostride r2c_inplace_4x8 = []"
    by (simp_all add: r2c_inplace_4x8_def)
  have il: "istride_lengths r2c_inplace_4x8 = [4, 10]"
    and ol: "ostride_lengths r2c_inplace_4x8 = [4, 5]"
    by (simp_all add: istride_lengths_def ostride_lengths_def r2c_inplace_4x8_def)
  have ci: "compute_istride r2c_inplace_4x8 = Inr (r2c_inplace_4x8\<lparr>istride := [10, 1]\<rparr>)"
    by (simp add: r2c_inplace_4x8_def ilength_def compute_istride_def compute_stride_def
        ebind_def dim_def)
  have co: "compute_ostride r2c_inplace_4x8 = Inr (r2c_inplace_4x8\<lparr>ostride := [5, 1]\<rparr>)"
    by (simp add: r2c_inplace_4x8_def olength_def compute_ostride_def compute_stride_def
        ebind_def dim_def)
  have vi: "map_sum id istride (validate r2c_inplace_4x8) = Inr [10, 1]"
    and vo: "map_sum id ostride (validate r2c_inplace_4x8) = Inr [5, 1]"
    by (simp_all add: validate_r2c_inplace_4x8)
  from compute_strides_unset_row_major [of r2c_inplace_4x8] lv unset il ol
    validate_r2c_inplace_4x8
  have "row_major [4, 10] [10, 1]" and "row_major [4, 5] [5, 1]"
    by simp_all
  with lv il ol ci co vi vo show ?thesis by simp
qed

text \<open>
  C4 as stated fails for a real-inverse request: with the lengths 4 by 8 and no strides
  given, the input strides are filled from the input lengths 4 by 5, so the first input
  stride is 5 and not the product 8 of the second stride and the second length.
\<close>

theorem compute_istride_real_inverse_counterexample:
  "length_v c2r_4x8 = [4, 8]
   \<and> istride c2r_4x8 = []
   \<and> compute_istride c2r_4x8 = Inr (c2r_4x8\<lparr>istride := [5, 1]\<rparr>)
   \<and> map_sum id istride (validate c2r_4x8) = Inr [5, 1]
   \<and> ([5, 1] :: size_t list) ! 0 \<noteq> [5, 1] ! 1 * length_v c2r_4x8 ! 1
   \<and> \<not> row_major (length_v c2r_4x8) [5, 1]"
proof -
  have lv: "length_v c2r_4x8 = [4, 8]" and unset: "istride c2r_4x8 = []"
    by (simp_all add: c2r_4x8_def)
  have ci: "compute_istride c2r_4x8 = Inr (c2r_4x8\<lparr>istride := [5, 1]\<rparr>)"
    by (simp add: c2r_4x8_def ilength_def compute_istride_def compute_stride_def
        ebind_def dim_def)
  have v: "map_sum id istride (validate c2r_4x8) = Inr [5, 1]"
    by (simp add: validate_c2r_4x8)
  have ne: "([5, 1] :: size_t list) ! 0 \<noteq> [5, 1] ! 1 * length_v c2r_4x8 ! 1"
    by (simp add: lv)
  have "\<not> row_major (length_v c2r_4x8) [5, 1]"
    by (simp add: row_major_def lv)
  with lv unset ci v ne show ?thesis by simp
qed

subsection \<open>Validity of in-place real transforms\<close>

lemma valid_accept:
  assumes "placement p = rocfft_placement_inplace" and "is_r2c (transform_type p)"
    and "valid p = Inr True"
  shows "istride p \<noteq> [] \<and> ostride p \<noteq> []
         \<and> last (istride p) = 1 \<and> last (ostride p) = 1
         \<and> (transform_type p = rocfft_transform_type_real_forward
              \<longrightarrow> ioffset p ! 0 = 2 * ooffset p ! 0)
         \<and> (transform_type p = rocfft_transform_type_real_inverse
              \<longrightarrow> 2 * ioffset p ! 0 = ooffset p ! 0)"
  using assms
  by (auto simp: valid_def is_r2c_def is_c2c_def ebind_def unit_strides_def
      vector_back_def check_offsets_def vector_at_def split: if_splits sum.splits)

lemma valid_reject:
  assumes "placement p = rocfft_placement_inplace" and "is_r2c (transform_type p)"
    and "istride p \<noteq> []" "ostride p \<noteq> []" "ioffset p \<noteq> []" "ooffset p \<noteq> []"
    and "\<not> (last (istride p) = 1 \<and> last (ostride p) = 1
         \<and> (transform_type p = rocfft_transform_type_real_forward
              \<longrightarrow> ioffset p ! 0 = 2 * ooffset p ! 0)
         \<and> (transform_type p = rocfft_transform_type_real_inverse
              \<longrightarrow> 2 * ioffset p ! 0 = ooffset p ! 0))"
  shows "valid p = Inr False"
  using assms
  by (auto simp: valid_def is_r2c_def is_c2c_def ebind_def unit_strides_def
      vector_back_def check_offsets_def vector_at_def split: if_splits sum.splits)

text \<open>
  C5. For an in-place real-forward or real-inverse parameter set, \<open>valid\<close> answers true
  only if the last input stride and the last output stride are both 1 and the offsets
  satisfy \<open>ioffset[0] = 2 * ooffset[0]\<close> (real-forward) or \<open>2 * ioffset[0] = ooffset[0]\<close>
  (real-inverse), the products being those of \<open>size_t\<close>; and a parameter set with
  strides and offsets present that violates one of these relations is answered false.
\<close>

theorem valid_inplace_real:
  assumes "placement p = rocfft_placement_inplace" and "is_r2c (transform_type p)"
  shows "(valid p = Inr True \<longrightarrow>
            istride p \<noteq> [] \<and> ostride p \<noteq> []
            \<and> last (istride p) = 1 \<and> last (ostride p) = 1
            \<and> (transform_type p = rocfft_transform_type_real_forward
                 \<longrightarrow> ioffset p ! 0 = 2 * ooffset p ! 0)
            \<and> (transform_type p = rocfft_transform_type_real_inverse
                 \<longrightarrow> 2 * ioffset p ! 0 = ooffset p ! 0))
       \<and> (istride p \<noteq> [] \<and> ostride p \<noteq> [] \<and> ioffset p \<noteq> [] \<and> ooffset p \<noteq> []
            \<and> \<not> (last (istride p) = 1 \<and> last (ostride p) = 1
                  \<and> (transform_type p = rocfft_transform_type_real_forward
                       \<longrightarrow> ioffset p ! 0 = 2 * ooffset p ! 0)
                  \<and> (transform_type p = rocfft_transform_type_real_inverse
                       \<longrightarrow> 2 * ioffset p ! 0 = ooffset p ! 0))
          \<longrightarrow> valid p = Inr False)"
  using valid_accept [OF assms] valid_reject [OF assms] by blast

theorem valid_inplace_real_witness:
  "valid r2c_inplace_8_validated = Inr True
   \<and> last (istride r2c_inplace_8_validated) = 1
   \<and> last (ostride r2c_inplace_8_validated) = 1
   \<and> ioffset r2c_inplace_8_validated ! 0 = 2 * ooffset r2c_inplace_8_validated ! 0
   \<and> valid (r2c_inplace_8_validated\<lparr>ioffset := [1, 0]\<rparr>) = Inr False
   \<and> valid (r2c_inplace_8_validated\<lparr>istride := [2]\<rparr>) = Inr False"
  using valid_inplace_real [of r2c_inplace_8_validated]
    valid_inplace_real [of "r2c_inplace_8_validated\<lparr>ioffset := [1, 0]\<rparr>"]
    valid_inplace_real [of "r2c_inplace_8_validated\<lparr>istride := [2]\<rparr>"]
  by (simp add: r2c_inplace_8_validated_def r2c_inplace_8_def valid_def is_r2c_def is_c2c_def
      ebind_def unit_strides_def vector_back_def check_offsets_def vector_at_def check_iotypes_def
      nibuffer_def nobuffer_def is_complex_type_def is_hermitian_type_def)

subsection \<open>Buffer sizes\<close>

lemma validate_r2c_inplace_8: "validate r2c_inplace_8 = Inr r2c_inplace_8_validated"
  by (simp add: validate_def r2c_inplace_8_def r2c_inplace_8_validated_def set_iotypes_def
      compute_istride_def compute_ostride_def ebind_def ilength_def olength_def
      compute_stride_def set_idist_def set_odist_def vector_at_def compute_isize_def
      compute_osize_def compute_ptrdiff_def nibuffer_def nobuffer_def dim_def)

text \<open>
  C10. For an in-place real-forward parameter set, \<open>ibuffer_sizes\<close> returns what
  \<open>obuffer_sizes\<close> returns: the input buffer gets the byte sizes of the output, whatever
  the input sizes \<open>isize\<close> are.
\<close>

theorem ibuffer_sizes_inplace_real_forward:
  assumes "placement p = rocfft_placement_inplace"
    and "transform_type p = rocfft_transform_type_real_forward"
  shows "ibuffer_sizes p = obuffer_sizes p"
  using assms by (simp add: ibuffer_sizes_def)

text \<open>
  After \<open>validate\<close>, the batch of three transforms of length 8 has 28 input and 15 output
  elements; the buffer sizes are both 240 bytes, the output's, where the input layout by
  itself (28 doubles) would give 224.
\<close>

theorem ibuffer_sizes_inplace_real_forward_witness:
  "validate r2c_inplace_8 = Inr r2c_inplace_8_validated
   \<and> ibuffer_sizes r2c_inplace_8_validated = Inr [240]
   \<and> obuffer_sizes r2c_inplace_8_validated = Inr [240]
   \<and> bytes_loop (isize r2c_inplace_8_validated)
        (var_size (precision r2c_inplace_8_validated) (itype r2c_inplace_8_validated)) 0
        (planar_count (itype r2c_inplace_8_validated)) = Inr [224]"
  using ibuffer_sizes_inplace_real_forward [of r2c_inplace_8_validated] validate_r2c_inplace_8
  by (simp add: r2c_inplace_8_validated_def r2c_inplace_8_def obuffer_sizes_def
      planar_count_def var_size_def ebind_def vector_at_def)

section \<open>Properties of the Stockham kernel specification\<close>

lemma tpt_loop_nonzero:
  "tpt0 \<noteq> 0 \<Longrightarrow> (\<forall>t \<in> set ts. 0 < t \<and> t < 2 ^ 32) \<Longrightarrow>
   tpt_loop len fs tpb ts tpt0 \<noteq> Inr 0"
proof (induction ts arbitrary: tpt0)
  case Nil
  then show ?case by simp
next
  case (Cons t ts)
  from Cons.prems(2) have t: "0 < t" "t < 2 ^ 32" by simp_all
  then have "unat (of_nat t :: uint) = t"
    by (simp add: unat_of_nat)
  with t have nz: "(of_nat t :: uint) \<noteq> 0" by auto
  from Cons.prems(2) have rest: "\<forall>t \<in> set ts. 0 < t \<and> t < 2 ^ 32" by simp
  have IH: "\<And>x. x \<noteq> 0 \<Longrightarrow> tpt_loop len fs tpb ts x \<noteq> Inr 0"
    using Cons.IH rest by blast
  from Cons.prems(1) nz IH show ?case
    by (auto simp: ebind_def split: if_splits sum.splits)
qed

lemma batches_loop_min:
  "tpt \<noteq> 0 \<Longrightarrow> unat tpt * unat bpb < 2 ^ 32 \<Longrightarrow>
   unat (batches_loop tpt tpb bpb) = min (unat bpb) (unat tpb div unat tpt)"
proof (induction tpt tpb bpb rule: batches_loop.induct)
  case (1 tpt tpb bpb)
  from "1.prems" have prod: "unat (tpt * bpb) = unat tpt * unat bpb"
    by (simp add: unat_mult_lem [THEN iffD1])
  have tpt: "0 < unat tpt" using "1.prems"(1) by (simp add: unat_gt_0)
  show ?case
  proof (cases "tpb < tpt * bpb")
    case True
    then have gt: "unat tpb < unat tpt * unat bpb"
      using prod by (simp add: word_less_nat_alt)
    then have "bpb \<noteq> 0" by auto
    then have dec: "unat (bpb - 1) = unat bpb - 1" and pos: "0 < unat bpb"
      by (simp_all add: unat_minus_one unat_gt_0)
    have "unat tpt * unat (bpb - 1) \<le> unat tpt * unat bpb" using dec by simp
    with "1.prems"(2) have small: "unat tpt * unat (bpb - 1) < 2 ^ 32" by linarith
    have "unat tpb div unat tpt < unat bpb"
      using gt tpt by (simp add: div_less_iff_less_mult mult.commute)
    then have "min (unat (bpb - 1)) (unat tpb div unat tpt) = min (unat bpb) (unat tpb div unat tpt)"
      using dec by simp
    with "1.IH" [OF True "1.prems"(1) small] True show ?thesis
      by (subst batches_loop.simps) simp
  next
    case False
    then have "unat tpt * unat bpb \<le> unat tpb"
      using prod by (simp add: word_less_nat_alt not_less)
    then have "unat bpb \<le> unat tpb div unat tpt"
      using tpt by (simp add: less_eq_div_iff_mult_less_eq mult.commute)
    with False show ?thesis
      by (subst batches_loop.simps) simp
  qed
qed



lemma StockhamKernel_result:
  assumes "StockhamKernel specs = Inr k"
  shows "\<exists>tpt. choose_threads_per_transform specs = Inr tpt
          \<and> threads_per_transform k = tpt
          \<and> bytes_per_batch specs \<noteq> 0
          \<and> transforms_per_block k = tpt * batches_per_block specs tpt div tpt"
proof -
  from assms obtain tpt where src: "choose_threads_per_transform specs = Inr tpt"
    by (cases "choose_threads_per_transform specs") (simp_all add: StockhamKernel_def ebind_def)
  with assms have bnz: "bytes_per_batch specs \<noteq> 0" and k: "k = StockhamGeneratorSpecs.extend
      (specs\<lparr>threads_per_transform := tpt,
             threads_per_block := tpt * batches_per_block specs tpt\<rparr>)
      (StockhamKernel.fields
         (compute_nregisters (length_k specs) (factors specs) tpt)
         (tpt * batches_per_block specs tpt div tpt))"
    by (simp_all add: StockhamKernel_def ebind_def Let_def split: if_splits)
  from k have "threads_per_transform k = tpt"
    and "transforms_per_block k = tpt * batches_per_block specs tpt div tpt"
    by (simp_all add: StockhamGeneratorSpecs.extend_def StockhamKernel.fields_def)
  with src bnz show ?thesis by blast
qed


text \<open>
  C3, as the code has it. When the constructor returns (no division by zero) and the
  32-bit products do not wrap, \<open>transforms_per_block\<close> is the largest \<open>n\<close> such that
  \<open>threads_per_transform * n\<close> is at most the \<open>threads_per_block\<close> given,
  \<open>n * bytes_per_batch\<close> is at most 32 KiB, and, when \<open>factors2d\<close> is not empty,
  \<open>n\<close> is at most \<open>length2d\<close>; here \<open>bytes_per_batch\<close> is \<open>length * 16\<close>, halved
  when \<open>half_lds\<close> is set.
\<close>

theorem transforms_per_block_largest:
  assumes "StockhamKernel specs = Inr k"
    and "unat (length_k specs) * 16 < 2 ^ 32"
    and "unat (threads_per_transform k) * (32768 div unat (bytes_per_batch specs)) < 2 ^ 32"
  shows "unat (bytes_per_batch specs) =
           (if half_lds specs then unat (length_k specs) * 16 div 2
            else unat (length_k specs) * 16)
       \<and> (let fits = (\<lambda>n. unat (threads_per_transform k) * n \<le> unat (threads_per_block specs)
                          \<and> n * unat (bytes_per_batch specs) \<le> 32768
                          \<and> (factors2d specs \<noteq> [] \<longrightarrow> n \<le> unat (length2d specs)))
          in fits (unat (transforms_per_block k))
             \<and> (\<forall>n. fits n \<longrightarrow> n \<le> unat (transforms_per_block k)))"
proof -
  let ?B = "unat (bytes_per_batch specs)"
  from StockhamKernel_result [OF assms(1)] obtain tpt where
    tpt_src: "choose_threads_per_transform specs = Inr tpt"
    and tpt: "threads_per_transform k = tpt"
    and bnz: "bytes_per_batch specs \<noteq> 0"
    and tr: "transforms_per_block k = tpt * batches_per_block specs tpt div tpt"
    by blast
  have tpt_nz: "tpt \<noteq> 0"
  proof (cases "threads_per_transform specs = 0")
    case True
    have "\<forall>t \<in> set [2..<unat (length_k specs)]. 0 < t \<and> t < 2 ^ 32"
      using unsigned_less [of "length_k specs", where ?'a = nat] by auto
    from tpt_loop_nonzero [OF _ this, of 1] tpt_src True show ?thesis
      by (auto simp: choose_threads_per_transform_def)
  next
    case False
    with tpt_src show ?thesis by (simp add: choose_threads_per_transform_def)
  qed
  then have tpt_pos: "0 < unat tpt" by (simp add: unat_gt_0)
  have "unat (length_k specs * 16) = unat (length_k specs) * 16"
    using assms(2) by (simp add: unat_word_ariths)
  then have ub: "?B = (if half_lds specs then unat (length_k specs) * 16 div 2
            else unat (length_k specs) * 16)"
    by (simp add: bytes_per_batch_def BYTES_PER_ELEMENT_def Let_def unat_div)
  from bnz have B_pos: "0 < ?B" by (simp add: unat_gt_0)
  have uq: "unat (LDS_BYTE_LIMIT div bytes_per_batch specs) = 32768 div ?B"
    by (simp add: unat_div LDS_BYTE_LIMIT_def)
  from assms(3) tpt uq
  have small: "unat tpt * unat (LDS_BYTE_LIMIT div bytes_per_batch specs) < 2 ^ 32" by simp
  define l where "l = batches_loop tpt (threads_per_block specs)
                        (LDS_BYTE_LIMIT div bytes_per_batch specs)"
  have ul: "unat l = min (32768 div ?B) (unat (threads_per_block specs) div unat tpt)"
    unfolding l_def using batches_loop_min [OF tpt_nz small] uq by simp
  define bpb where "bpb = batches_per_block specs tpt"
  have bpb: "bpb = (if factors2d specs \<noteq> [] then min l (length2d specs) else l)"
    unfolding bpb_def l_def batches_per_block_def Let_def by simp
  have ubpb: "unat bpb =
      (if factors2d specs \<noteq> [] then min (unat l) (unat (length2d specs)) else unat l)"
    unfolding bpb by (simp add: min_def word_le_nat_alt)
  have "unat bpb \<le> unat l" using ubpb by simp
  also have "\<dots> \<le> 32768 div ?B" using ul by simp
  finally have "unat tpt * unat bpb \<le> unat tpt * (32768 div ?B)"
    by (rule mult_le_mono2)
  with assms(3) tpt have "unat tpt * unat bpb < 2 ^ 32"
    by (metis le_less_trans)
  then have "unat (tpt * bpb) = unat tpt * unat bpb"
    by (simp add: unat_mult_lem [THEN iffD1])
  then have "unat (tpt * bpb div tpt) = unat bpb"
    using tpt_pos by (simp add: unat_div)
  with tr have res: "unat (transforms_per_block k) = unat bpb"
    unfolding bpb_def by simp
  have char: "n \<le> unat bpb \<longleftrightarrow>
      unat tpt * n \<le> unat (threads_per_block specs) \<and> n * ?B \<le> 32768
      \<and> (factors2d specs \<noteq> [] \<longrightarrow> n \<le> unat (length2d specs))" for n
  proof -
    have a: "n \<le> unat (threads_per_block specs) div unat tpt
           \<longleftrightarrow> unat tpt * n \<le> unat (threads_per_block specs)"
      using tpt_pos by (simp add: less_eq_div_iff_mult_less_eq mult.commute)
    have b: "n \<le> 32768 div ?B \<longleftrightarrow> n * ?B \<le> 32768"
      using B_pos by (simp add: less_eq_div_iff_mult_less_eq)
    show ?thesis
      unfolding ubpb ul using a b by auto
  qed
  have "unat tpt * unat bpb \<le> unat (threads_per_block specs) \<and> unat bpb * ?B \<le> 32768
      \<and> (factors2d specs \<noteq> [] \<longrightarrow> unat bpb \<le> unat (length2d specs))"
    using char [of "unat bpb"] by simp
  moreover have "\<forall>n. unat tpt * n \<le> unat (threads_per_block specs) \<and> n * ?B \<le> 32768
      \<and> (factors2d specs \<noteq> [] \<longrightarrow> n \<le> unat (length2d specs)) \<longrightarrow> n \<le> unat bpb"
    using char by blast
  ultimately show ?thesis
    unfolding Let_def res tpt using ub by blast
qed


theorem transforms_per_block_largest_witness:
  "StockhamKernel specs_64 = Inr kernel_64
   \<and> unat (bytes_per_batch specs_64) = 1024
   \<and> unat (transforms_per_block kernel_64) = 8
   \<and> unat (threads_per_transform kernel_64) * 8 \<le> unat (threads_per_block specs_64)
   \<and> 8 * unat (bytes_per_batch specs_64) \<le> 32768
   \<and> \<not> unat (threads_per_transform kernel_64) * 9 \<le> unat (threads_per_block specs_64)"
proof -
  have k: "StockhamKernel specs_64 = Inr kernel_64"
    by (simp add: StockhamKernel_def specs_64_def kernel_64_def Let_def ebind_def
        choose_threads_per_transform_def bytes_per_batch_def batches_per_block_def
        BYTES_PER_ELEMENT_def LDS_BYTE_LIMIT_def StockhamGeneratorSpecs.extend_def
        StockhamKernel.fields_def upt_conv_Cons quotient_def batches_loop.simps)
  have b: "unat (bytes_per_batch specs_64) = 1024"
    by (simp add: bytes_per_batch_def specs_64_def BYTES_PER_ELEMENT_def)
  have h1: "unat (length_k specs_64) * 16 < 2 ^ 32"
    by (simp add: specs_64_def)
  have h2: "unat (threads_per_transform kernel_64)
              * (32768 div unat (bytes_per_batch specs_64)) < 2 ^ 32"
    unfolding b by (simp add: kernel_64_def)
  from transforms_per_block_largest [OF k h1 h2] k b show ?thesis
    by (simp add: Let_def kernel_64_def specs_64_def)
qed

text \<open>
  C3 as stated, with 16 bytes per element whatever \<open>half_lds\<close> is, fails for the
  length-4096 kernel with real-only LDS: one transform per block, and
  \<open>1 * 4096 * 16\<close> bytes exceed the limit.
\<close>

theorem transforms_per_block_lds_counterexample:
  "map_sum id transforms_per_block (StockhamKernel specs_4096) = Inr 1
   \<and> \<not> 1 * unat (length_k specs_4096) * unat BYTES_PER_ELEMENT \<le> unat LDS_BYTE_LIMIT"
  by (simp add: StockhamKernel_def specs_4096_def Let_def ebind_def
      choose_threads_per_transform_def bytes_per_batch_def batches_per_block_def
      BYTES_PER_ELEMENT_def LDS_BYTE_LIMIT_def StockhamGeneratorSpecs.extend_def
      StockhamKernel.fields_def batches_loop.simps)

section \<open>Properties of the runtime-compilation cache\<close>

text \<open>
  C9. \<open>get_code_object\<close> returns the code of a stored row exactly when the cache has a
  row whose name, architecture, version and generator sum are the four arguments, and
  that row is then the one returned; when there is no such row the result is empty,
  whatever other rows the cache holds.
\<close>

theorem get_code_object_full_key:
  "((\<exists>row. db \<lparr>kernel_name = name, gpu_arch = arch, hip_version = version,
                 generator_sum = gsum\<rparr> = Some row
            \<and> get_code_object db name arch version gsum = code row)
      \<longleftrightarrow> \<lparr>kernel_name = name, gpu_arch = arch, hip_version = version,
              generator_sum = gsum\<rparr> \<in> dom db)
   \<and> (\<lparr>kernel_name = name, gpu_arch = arch, hip_version = version,
        generator_sum = gsum\<rparr> \<notin> dom db
        \<longrightarrow> get_code_object db name arch version gsum = [])"
  by (auto simp: get_code_object_def split: option.splits)

theorem get_code_object_full_key_witness:
  "get_code_object cache_example ''fft_fwd_len64'' ''gfx908'' 40421432 [1, 2] = [127, 69, 76, 70]
   \<and> get_code_object cache_example ''fft_fwd_len64'' ''gfx90a'' 40421432 [1, 2] = []
   \<and> get_code_object cache_example ''fft_fwd_len64'' ''gfx908'' 40421433 [1, 2] = []
   \<and> get_code_object cache_example ''fft_fwd_len64'' ''gfx908'' 40421432 [1, 3] = []
   \<and> get_code_object cache_example ''fft_back_len64'' ''gfx908'' 40421432 [1, 2] = []"
  using get_code_object_full_key [of cache_example "''fft_fwd_len64''" "''gfx908''" 40421432 "[1, 2]"]
    get_code_object_full_key [of cache_example "''fft_fwd_len64''" "''gfx90a''" 40421432 "[1, 2]"]
  by (simp add: cache_example_def store_code_object_def get_code_object_def)

section \<open>Properties of the radix sequence\<close>

lemma pick_radix_find:
  assumes "0 < cn" and "\<forall>c \<in> set cs. 0 < c"
  shows "pick_radix cn R (cs @ [1]) r =
           (case find (\<lambda>c. c dvd R \<and> c dvd cn) cs of Some c \<Rightarrow> c | None \<Rightarrow> 1)"
  using assms(2)
proof (induction cs arbitrary: r)
  case Nil
  then show ?case by simp
next
  case (Cons c cs)
  from Cons.prems have c: "0 < c" and rest: "\<forall>c \<in> set cs. 0 < c" by simp_all
  have skip: "(c > cn \<or> cn mod c \<noteq> 0) \<longleftrightarrow> \<not> c dvd cn"
    using assms(1) c by (auto simp: dvd_eq_mod_eq_0 dest: dvd_imp_le)
  show ?case
    using Cons.IH [OF rest, of c] skip by (auto simp: dvd_eq_mod_eq_0)
qed

lemma pick_radix_candidates:
  assumes "0 < cn"
  shows "pick_radix cn R cRad 0 = (case largest_candidate R cn of Some c \<Rightarrow> c | None \<Rightarrow> 1)"
proof -
  have "cRad = candidates @ [1]" by (simp add: cRad_def candidates_def)
  moreover have "\<forall>c \<in> set candidates. 0 < c" by (simp add: candidates_def)
  ultimately show ?thesis
    using pick_radix_find [OF assms, of candidates R 0] by (simp add: largest_candidate_def)
qed

lemma largest_candidate_Some:
  assumes "largest_candidate R cn = Some c"
  shows "c \<in> set candidates \<and> 2 \<le> c \<and> c dvd R \<and> c dvd cn
         \<and> (\<forall>c' \<in> set candidates. c' dvd R \<and> c' dvd cn \<longrightarrow> c' \<le> c)"
proof -
  from assms obtain i where i: "i < length candidates" "candidates ! i = c"
    "c dvd R \<and> c dvd cn" "\<forall>j < i. \<not> (candidates ! j dvd R \<and> candidates ! j dvd cn)"
    unfolding largest_candidate_def find_Some_iff by blast
  have sorted: "\<forall>j k. j \<le> k \<and> k < length candidates \<longrightarrow> candidates ! k \<le> candidates ! j"
    by (simp add: candidates_def nth_Cons' )
  have "c \<in> set candidates" using i(1,2) by (metis nth_mem)
  moreover then have "2 \<le> c" by (auto simp: candidates_def)
  moreover have "\<forall>c' \<in> set candidates. c' dvd R \<and> c' dvd cn \<longrightarrow> c' \<le> c"
  proof (intro ballI impI)
    fix c' assume "c' \<in> set candidates" and d: "c' dvd R \<and> c' dvd cn"
    then obtain k where k: "k < length candidates" "candidates ! k = c'"
      by (auto simp: in_set_conv_nth)
    with d i(4) have "i \<le> k" by (metis not_less)
    with sorted k i(2) show "c' \<le> c" by blast
  qed
  ultimately show ?thesis using i(3) by blast
qed


lemma greedy_factors_unfold:
  "greedy_factors cn R = Some rs \<Longrightarrow> R \<noteq> 1 \<Longrightarrow>
   \<exists>c rs'. R \<noteq> 0 \<and> largest_candidate R cn = Some c
             \<and> greedy_factors cn (R div c) = Some rs' \<and> rs = c # rs'"
  by (subst (asm) greedy_factors.simps) (auto split: if_splits option.splits)

lemma greedy_factors_1: "greedy_factors cn 1 = Some []"
  by (subst greedy_factors.simps) simp

lemma radix_loop_greedy:
  assumes "0 < cn"
  shows "greedy_factors cn R = Some rs \<Longrightarrow> R \<noteq> 1 \<Longrightarrow>
     \<exists>ps'. radix_loop (length rs) cn pid LS R rads ps
              = Some (Inr (rads @ rs, ps', pid + length rs))
          \<and> map radix ps' = map radix ps @ rs
          \<and> length ps' = length ps + length rs"
proof (induction rs arbitrary: R pid LS rads ps)
  case Nil
  from greedy_factors_unfold [OF Nil.prems] show ?case by simp
next
  case (Cons c rs')
  from greedy_factors_unfold [OF Cons.prems]
  have R0: "R \<noteq> 0" and lc: "largest_candidate R cn = Some c"
    and rest: "greedy_factors cn (R div c) = Some rs'"
    by auto
  from largest_candidate_Some [OF lc] have c: "2 \<le> c" "c dvd R" "c dvd cn" by auto
  have pick: "pick_radix cn R cRad 0 = c"
    using pick_radix_candidates [OF assms, of R] lc by simp
  have cn_mod: "cn mod c = 0" using c(3) by (simp add: dvd_eq_mod_eq_0)
  have R': "1 \<le> R div c"
    using c(1,2) R0 by (metis One_nat_def Suc_leI div_greater_zero_iff dvd_imp_le neq0_conv zero_less_numeral
        le_trans not_less)
  let ?pass = "\<lparr>position = pid, radix = c, pass_L = wrap64 (LS * c), pass_LS = LS,
                 pass_R = R div c\<rparr>"
  show ?case
  proof (cases "R div c = 1")
    case True
    with rest greedy_factors_1 [of cn] have "rs' = []" by simp
    with True pick cn_mod show ?thesis
      by (simp add: Let_def)
  next
    case False
    from Cons.IH [OF rest False, of "pid + 1" "wrap64 (LS * c)" "rads @ [c]" "ps @ [?pass]"]
    obtain ps' where
      "radix_loop (length rs') cn (pid + 1) (wrap64 (LS * c)) (R div c) (rads @ [c]) (ps @ [?pass])
         = Some (Inr ((rads @ [c]) @ rs', ps', pid + 1 + length rs'))"
      and "map radix ps' = map radix (ps @ [?pass]) @ rs'"
      and "length ps' = length (ps @ [?pass]) + length rs'"
      by blast
    with False R' pick cn_mod show ?thesis
      by (simp add: Let_def)
  qed
qed

lemma table_loop_radices:
  "table_loop rs i LS R ps = Inr ps' \<Longrightarrow>
   map radix ps' = map radix ps @ rs \<and> length ps' = length ps + length rs"
proof (induction rs arbitrary: i LS R ps)
  case Nil
  then show ?case by (simp split: if_splits)
next
  case (Cons rad rs)
  then show ?case
    by (fastforce simp: Let_def split: if_splits)
qed


text \<open>
  C2, as the code has it. The factor sequence of a kernel is the sequence of the radices
  of its passes. (1) When the table has a row for the length and the maximal work-group
  size is at least 256, the constructor does not loop, and if it returns a kernel, the
  radices of its passes and their number are the tabulated ones. (2) When the table has
  no row, the length is not 1 and the claim's greedy rule (largest candidate of
  13, \<dots>, 2 dividing the remaining length and \<open>cnPerWI\<close>, until the remainder is 1)
  yields a sequence, the constructor returns a kernel whose passes have exactly that
  sequence of radices, after as many iterations as it has factors.
\<close>

theorem Kernel_factor_sequence:
  "(fft_MaxWorkGroupSize p \<ge> 256 \<and> GetRadices tbl (fft_N0 p) = Inr rs \<and> rs \<noteq> [] \<longrightarrow>
      Kernel fuel tbl p \<noteq> None
      \<and> (\<forall>k. Kernel fuel tbl p = Some (Inr k) \<longrightarrow>
             map radix (passes k) = rs \<and> numPasses k = length rs))
   \<and> (GetRadices tbl (fft_N0 p) = Inr [] \<and> Kernel_sizes p = Inr (cn, wgspt) \<and> 0 < cn
        \<and> fft_N0 p \<noteq> 1 \<and> greedy_factors cn (fft_N0 p) = Some rs \<longrightarrow>
      (\<exists>k. Kernel (length rs) tbl p = Some (Inr k)
           \<and> cnPerWI k = cn \<and> map radix (passes k) = rs
           \<and> numPasses k = length rs))"
proof (rule conjI; rule impI)
  assume a: "fft_MaxWorkGroupSize p \<ge> 256 \<and> GetRadices tbl (fft_N0 p) = Inr rs \<and> rs \<noteq> []"
  then have kp: "Kernel_passes fuel p c rs =
      Some (map_sum id (\<lambda>ps. (rs, ps, length rs)) (table_loop rs 0 1 (fft_N0 p) []))" for c
    by (simp add: Kernel_passes_def)
  have some: "Kernel fuel tbl p \<noteq> None"
    using a kp by (auto simp: Kernel_def split: sum.splits option.splits prod.splits)
  have "map radix (passes k) = rs \<and> numPasses k = length rs"
    if k: "Kernel fuel tbl p = Some (Inr k)" for k
  proof -
    from k a obtain c w where sz: "Kernel_sizes p = Inr (c, w)"
      by (cases "Kernel_sizes p") (auto simp: Kernel_def)
    from k a sz kp [of c] obtain ps where tl: "table_loop rs 0 1 (fft_N0 p) [] = Inr ps"
      by (cases "table_loop rs 0 1 (fft_N0 p) []") (auto simp: Kernel_def)
    from table_loop_radices [OF tl] have ps: "map radix ps = rs" "length ps = length rs"
      by simp_all
    from a sz kp [of c] tl ps have "Kernel fuel tbl p =
        Some (Inr \<lparr>length_g = fft_N0 p, workGroupSize = fft_workGroupSize p, cnPerWI = c,
                numTrans = fft_numTrans p, workGroupSizePerTrans = w,
                numPasses = length rs, radices = [], passes = ps,
                halfLds = \<not> blockCompute p, linearRegs = True\<rparr>)"
      by (simp add: Kernel_def)
    with k have "k = \<lparr>length_g = fft_N0 p, workGroupSize = fft_workGroupSize p, cnPerWI = c,
                numTrans = fft_numTrans p, workGroupSizePerTrans = w,
                numPasses = length rs, radices = [], passes = ps,
                halfLds = \<not> blockCompute p, linearRegs = True\<rparr>"
      by simp
    with ps show ?thesis by simp
  qed
  with some show "Kernel fuel tbl p \<noteq> None
      \<and> (\<forall>k. Kernel fuel tbl p = Some (Inr k) \<longrightarrow>
             map radix (passes k) = rs \<and> numPasses k = length rs)"
    by blast
next
  assume b: "GetRadices tbl (fft_N0 p) = Inr [] \<and> Kernel_sizes p = Inr (cn, wgspt) \<and> 0 < cn
        \<and> fft_N0 p \<noteq> 1 \<and> greedy_factors cn (fft_N0 p) = Some rs"
  then have cn: "0 < cn" and g: "greedy_factors cn (fft_N0 p) = Some rs" and n1: "fft_N0 p \<noteq> 1"
    by simp_all
  from radix_loop_greedy [OF cn g n1, of 0 1 "[]" "[]"] obtain ps where
    rl: "radix_loop (length rs) cn 0 1 (fft_N0 p) [] [] = Some (Inr (rs, ps, length rs))"
    and ps: "map radix ps = rs" "length ps = length rs"
    by auto
  have "Kernel_passes (length rs) p cn [] = Some (Inr (rs, ps, length rs))"
    using rl by (simp add: Kernel_passes_def)
  with b ps show "\<exists>k. Kernel (length rs) tbl p = Some (Inr k)
           \<and> cnPerWI k = cn \<and> map radix (passes k) = rs
           \<and> numPasses k = length rs"
    by (simp add: Kernel_def)
qed


lemma radix_loop_numeral:
  "radix_loop (numeral n) cn pid LS R rads ps =
     radix_loop (Suc (pred_numeral n)) cn pid LS R rads ps"
  by (simp add: numeral_eq_Suc)

lemma GetRadices_table_64: "GetRadices table_64 64 = Inr [4, 4, 4]"
  by (simp add: table_64_def ebind_def vector_at_def eval_nat_numeral)

lemma Kernel_sizes_params_64: "Kernel_sizes (params_64 m) = Inr (8, 8)"
  by (simp add: Kernel_sizes_def params_64_def wrap64_def Let_def)

lemma greedy_factors_35: "greedy_factors 35 35 = Some [7, 5]"
  by code_simp

theorem Kernel_factor_sequence_witness:
  "GetRadices table_64 64 = Inr [4, 4, 4]
   \<and> map_option (map_sum id (map radix \<circ> passes)) (Kernel 0 table_64 (params_64 256))
       = Some (Inr [4, 4, 4])
   \<and> GetRadices table_64 35 = Inr []
   \<and> Kernel_sizes params_35 = Inr (35, 1)
   \<and> greedy_factors 35 35 = Some [7, 5]
   \<and> map_option (map_sum id (map radix \<circ> passes)) (Kernel 2 table_64 params_35)
       = Some (Inr [7, 5])"
proof -
  have tl: "table_loop [4, 4, 4] 0 1 64 [] = Inr
      [\<lparr>position = 0, radix = 4, pass_L = 4, pass_LS = 1, pass_R = 16\<rparr>,
       \<lparr>position = 1, radix = 4, pass_L = 16, pass_LS = 4, pass_R = 4\<rparr>,
       \<lparr>position = 2, radix = 4, pass_L = 64, pass_LS = 16, pass_R = 1\<rparr>]"
    by (simp add: Let_def wrap64_def)
  have a: "map_option (map_sum id (map radix \<circ> passes)) (Kernel 0 table_64 (params_64 256))
             = Some (Inr [4, 4, 4])"
    using GetRadices_table_64 Kernel_sizes_params_64 [of 256] tl
    by (simp add: Kernel_def Kernel_passes_def params_64_def)
  have g: "GetRadices table_64 35 = Inr []"
    by (simp add: table_64_def)
  have sz: "Kernel_sizes params_35 = Inr (35, 1)"
    by (simp add: Kernel_sizes_def params_35_def wrap64_def Let_def)
  have len: "fft_N0 params_35 = 35" by (simp add: params_35_def)
  from Kernel_factor_sequence [of params_35 table_64 "[7, 5]" 0 35 1] g sz greedy_factors_35 len
  obtain k where "Kernel (Suc (Suc 0)) table_64 params_35 = Some (Inr k)"
    and "map radix (passes k) = [7, 5]"
    by auto
  then have b: "map_option (map_sum id (map radix \<circ> passes)) (Kernel 2 table_64 params_35)
                  = Some (Inr [7, 5])"
    by (simp add: numeral_2_eq_2)
  from Kernel_factor_sequence [of "params_64 256" table_64 "[4, 4, 4]" 0 35 1]
    GetRadices_table_64 a g sz greedy_factors_35 b
  show ?thesis by simp
qed

text \<open>
  When some step has no candidate, the loop picks radix 1, leaves the remaining length
  as it is and never ends.
\<close>

lemma radix_loop_stuck:
  assumes "0 < cn" and "largest_candidate R cn = None" and "R \<noteq> 1" and "R \<noteq> 0"
  shows "radix_loop fuel cn pid LS R rads ps = None"
proof (induction fuel arbitrary: pid LS rads ps)
  case 0
  show ?case by simp
next
  case (Suc fuel)
  have pick: "pick_radix cn R cRad 0 = 1"
    using pick_radix_candidates [OF assms(1), of R] assms(2) by simp
  with assms(3,4) Suc.IH show ?case
    by (simp add: Let_def)
qed


text \<open>
  C2 as stated fails where the table has a row but the maximal work-group size is below
  256: for length 64 with the tabulated radices 4, 4, 4 and eight registers per work
  item, the \<open>while\<close> loop runs, appends 8, 8 to the local vector that already holds
  4, 4, 4 and builds two radix-8 passes; the closing assertion on the number of radices
  then fails.
\<close>

theorem Kernel_table_counterexample:
  "GetRadices table_64 64 = Inr [4, 4, 4]
   \<and> Kernel_passes 2 (params_64 128) 8 [4, 4, 4] =
       Some (Inr ([4, 4, 4, 8, 8],
         [\<lparr>position = 0, radix = 8, pass_L = 8, pass_LS = 1, pass_R = 8\<rparr>,
          \<lparr>position = 1, radix = 8, pass_L = 64, pass_LS = 8, pass_R = 1\<rparr>], 2))
   \<and> Kernel 2 table_64 (params_64 128) = Some (Inl AssertionFailed)"
proof -
  have "radix_loop 2 8 0 1 64 [4, 4, 4] [] =
       Some (Inr ([4, 4, 4, 8, 8],
         [\<lparr>position = 0, radix = 8, pass_L = 8, pass_LS = 1, pass_R = 8\<rparr>,
          \<lparr>position = 1, radix = 8, pass_L = 64, pass_LS = 8, pass_R = 1\<rparr>], 2))"
    by (simp add: radix_loop_numeral cRad_def Let_def wrap64_def)
  with GetRadices_table_64 Kernel_sizes_params_64 [of 128] show ?thesis
    by (simp add: Kernel_def Kernel_passes_def params_64_def)
qed

section \<open>Properties of the hermitian symmetry\<close>














text \<open>
  The error is raised inside the loop over the batches: with no batch at all nothing is
  executed and the buffers are returned as they are.
\<close>

lemma impose_hermitian_symmetry_no_batch:
  "length vals = 2 \<Longrightarrow>
   impose_hermitian_symmetry vals len istr d 0 = Inr [vals ! 0, vals ! 1]"
  by (simp add: impose_hermitian_symmetry_def ebind_def)

section \<open>Properties of the generated device function\<close>

lemma real_path_single_If:
  assumes "\<And>e rest. ys \<noteq> Else e # rest"
  shows "real_path (If c body # ys) = real_path [If c body] @ real_path ys"
proof (cases ys)
  case Nil
  then show ?thesis by simp
next
  case (Cons y rest)
  with assms have "\<And>e. y \<noteq> Else e" by blast
  with Cons show ?thesis by (cases y) auto
qed

lemma real_path_append:
  "(\<And>e rest. ys \<noteq> Else e # rest) \<Longrightarrow> real_path (xs @ ys) = real_path xs @ real_path ys"
  by (induction xs rule: real_path.induct) (simp_all add: real_path_single_If)

lemma events_append: "events (xs @ ys) = events xs @ events ys"
  by (simp add: events_def)


lemma real_path_plain: "list_all plain xs \<Longrightarrow> real_path xs = xs"
proof (induction xs)
  case Nil
  show ?case by simp
next
  case (Cons s xs)
  then show ?case by (cases s) simp_all
qed

lemma plain_not_Else: "list_all plain xs \<Longrightarrow> xs \<noteq> Else e # rest"
  by auto

lemma append_not_Else:
  "(\<And>e rest. xs \<noteq> Else e # rest) \<Longrightarrow> (\<And>e rest. ys \<noteq> Else e # rest)
   \<Longrightarrow> xs @ ys \<noteq> Else e # rest"
  by (cases xs) auto

lemma events_concat_replicate:
  "(\<And>x. x \<in> set xs \<Longrightarrow> events (f x) = replicate n e) \<Longrightarrow>
   events (concat (map f xs)) = replicate (length xs * n) e"
proof (induction xs)
  case Nil
  show ?case by (simp add: events_def)
next
  case (Cons x xs)
  then show ?case
    by (simp add: events_append replicate_add)
qed

lemma length_urange: "length (urange a n) = unat n - a"
  by (simp add: urange_def)

lemma guard_not_real:
  "And write_var c \<noteq> Not lds_is_real" "write_var \<noteq> Not lds_is_real"
  by (simp_all add: write_var_def)

lemma add_work_not_Else: 
  assumes "\<And>h hr dt. list_all plain (gen h hr width dt)"
  shows "add_work k gen width height guard \<noteq> Else e # rest"
proof -
  let ?work = "concat (map (\<lambda>h. gen h 0 width 0) (urange 0 (iheight_of k width height)))"
  have "list_all plain ?work"
    using assms by (simp add: list_all_iff)
  then have w: "?work \<noteq> Else e # rest" for e rest
    by (rule plain_not_Else)
  show ?thesis
    unfolding add_work_def Let_def using w
    by (cases guard) (auto simp: append_eq_Cons_conv)
qed

lemma events_add_work:
  assumes plain: "\<And>h hr dt. list_all plain (gen h hr width dt)"
    and ev: "\<And>h hr dt. events (gen h hr width dt) = replicate n e"
  shows "events (real_path (add_work k gen width height guard))
           = replicate (work_items k width height * n) e"
proof -
  let ?ih = "iheight_of k width height"
  let ?work = "concat (map (\<lambda>h. gen h 0 width 0) (urange 0 ?ih))"
  let ?c1 = "And write_var (Less thread (Lit (length_k k div width)))"
  let ?stmts = "if guard then
                     [CommentLines,
                      if threads_per_transform k \<noteq> length_k k div width
                      then If ?c1 ?work
                      else If write_var ?work]
                   else ?work"
  let ?dt = "?ih * threads_per_transform k"
  let ?extra = "[CommentLines,
      If (And write_var (Less (Add thread (Lit ?dt)) (Lit (length_k k div width))))
         (gen 0 ?ih width ?dt)]"
  have pw: "list_all plain ?work"
    using plain by (simp add: list_all_iff)
  have ew: "events ?work = replicate (unat ?ih * n) e"
    using events_concat_replicate [of "urange 0 ?ih" "\<lambda>h. gen h 0 width 0" n e] ev
    by (simp add: length_urange)
  have stmts: "events (real_path ?stmts) = replicate (unat ?ih * n) e"
    using ew real_path_plain [OF pw]
    by (simp add: guard_not_real events_def)
  have extra: "events (real_path ?extra) = replicate n e"
    using ev [of 0 ?ih ?dt] real_path_plain [OF plain [of 0 ?ih ?dt]]
    by (simp add: guard_not_real events_def)
  have "real_path (?stmts @ ?extra) = real_path ?stmts @ real_path ?extra"
    by (rule real_path_append) simp
  then have both: "events (real_path (?stmts @ ?extra)) = replicate (unat ?ih * n + n) e"
    using stmts extra by (simp add: events_append replicate_add)
  show ?thesis
  proof (cases "extra_work k width height")
    case True
    then have "add_work k gen width height guard = ?stmts @ ?extra"
      by (simp add: add_work_def Let_def)
    with both True show ?thesis
      by (simp add: work_items_def add_mult_distrib)
  next
    case False
    then have "add_work k gen width height guard = ?stmts"
      by (simp add: add_work_def Let_def)
    with stmts False show ?thesis
      by (simp add: work_items_def)
  qed
qed


lemma events_map_single:
  "(\<And>x. x \<in> set xs \<Longrightarrow> event_of (f x) = [e]) \<Longrightarrow>
   events (map f xs) = replicate (length xs) e"
  by (induction xs) (simp_all add: events_def)

lemma events_map_none:
  "(\<And>x. x \<in> set xs \<Longrightarrow> event_of (f x) = []) \<Longrightarrow> events (map f xs) = []"
  by (induction xs) (simp_all add: events_def)

lemma plain_store: "list_all plain (store_lds_generator k c H h hr width dt)"
  by (cases c) (simp_all add: store_lds_generator_def Let_def list_all_iff)

lemma plain_load: "list_all plain (load_lds_generator k c h hr width dt)"
  by (cases c) (simp_all add: load_lds_generator_def Let_def list_all_iff)

lemma plain_twiddle: "list_all plain (apply_twiddle_generator k H h hr width dt)"
  by (simp add: apply_twiddle_generator_def Let_def list_all_iff)

lemma plain_butterfly: "list_all plain (butterfly_generator k h hr width dt)"
  by (simp add: butterfly_generator_def Let_def)

lemma events_store:
  "events (store_lds_generator k Component_X H h hr width dt) = replicate (unat width) StoreX"
  "events (store_lds_generator k Component_Y H h hr width dt) = replicate (unat width) StoreY"
  "events (store_lds_generator k Component_NONE H h hr width dt) = replicate 0 StoreX"
  unfolding store_lds_generator_def Let_def
  by (simp_all add: events_map_single events_map_none length_urange lds_real_def lds_complex_def)

lemma events_load:
  "events (load_lds_generator k Component_X h hr width dt) = replicate (unat width) LoadX"
  "events (load_lds_generator k Component_Y h hr width dt) = replicate (unat width) LoadY"
  "events (load_lds_generator k Component_NONE h hr width dt) = replicate 0 LoadX"
  unfolding load_lds_generator_def Let_def
  by (simp_all add: events_map_single events_map_none length_urange lds_real_def lds_complex_def
      R_var_def)

lemma events_twiddle: "events (apply_twiddle_generator k H h hr width dt) = replicate 0 StoreX"
  by (simp add: apply_twiddle_generator_def Let_def events_def W_var_def t_var_def)

lemma events_butterfly: "events (butterfly_generator k h hr width dt) = replicate 0 StoreX"
  by (simp add: butterfly_generator_def Let_def events_def)


lemma events_store_half:
  assumes "npass + 1 < length (factors k)"
  shows "events (real_path (store_half k npass)) =
           replicate (work_items k (factors k ! npass) (height_of k (factors k ! npass))
                        * unat (factors k ! npass)) StoreX
           @ [Barrier]
           @ replicate (work_items k (factors k ! (npass + 1))
                          (height_of k (factors k ! (npass + 1)))
                        * unat (factors k ! (npass + 1))) LoadX
           @ [Barrier]
           @ replicate (work_items k (factors k ! npass) (height_of k (factors k ! npass))
                        * unat (factors k ! npass)) StoreY
           @ [Barrier]
           @ replicate (work_items k (factors k ! (npass + 1))
                          (height_of k (factors k ! (npass + 1)))
                        * unat (factors k ! (npass + 1))) LoadY
           @ [Barrier]"
proof -
  let ?w = "factors k ! npass" and ?w' = "factors k ! (npass + 1)"
  let ?H = "cumheight_of k npass"
  let ?st = "\<lambda>c. add_work k (store_lds_generator k c ?H) ?w (height_of k ?w) True"
  let ?ld = "\<lambda>c. add_work k (load_lds_generator k c) ?w' (height_of k ?w') True"
  have half: "store_half k npass =
      ?st Component_X @ [SyncThreads] @ ?ld Component_X @ [SyncThreads]
      @ ?st Component_Y @ [SyncThreads] @ ?ld Component_Y @ [SyncThreads]"
    using assms by (simp add: store_half_def Let_def)
  have ne_st: "?st c \<noteq> Else e # rest" for c e rest
    by (rule add_work_not_Else) (rule plain_store)
  have ne_ld: "?ld c \<noteq> Else e # rest" for c e rest
    by (rule add_work_not_Else) (rule plain_load)
  have split: "real_path (store_half k npass) =
      real_path (?st Component_X) @ [SyncThreads] @ real_path (?ld Component_X) @ [SyncThreads]
      @ real_path (?st Component_Y) @ [SyncThreads] @ real_path (?ld Component_Y) @ [SyncThreads]"
    unfolding half
    by (simp add: real_path_append append_not_Else ne_st ne_ld)
  have sx: "events (real_path (?st Component_X)) = replicate (work_items k ?w (height_of k ?w) * unat ?w) StoreX"
    by (rule events_add_work [OF plain_store events_store(1)])
  have sy: "events (real_path (?st Component_Y)) = replicate (work_items k ?w (height_of k ?w) * unat ?w) StoreY"
    by (rule events_add_work [OF plain_store events_store(2)])
  have lx: "events (real_path (?ld Component_X)) = replicate (work_items k ?w' (height_of k ?w') * unat ?w') LoadX"
    by (rule events_add_work [OF plain_load events_load(1)])
  have ly: "events (real_path (?ld Component_Y)) = replicate (work_items k ?w' (height_of k ?w') * unat ?w') LoadY"
    by (rule events_add_work [OF plain_load events_load(2)])
  have sync: "events [SyncThreads] = [Barrier]"
    by (simp add: events_def)
  show ?thesis
    unfolding split events_append sx sy lx ly sync ..
qed


lemma events_pass_body:
  assumes "pass_body k npass = Inr body"
  shows "events (real_path body) = Barrier # events (real_path (store_half k npass))"
proof -
  let ?w = "factors k ! npass"
  let ?T = "pass_twiddle k npass"
  let ?B = "add_work k (butterfly_generator k) ?w (height_of k ?w) False"
  let ?tail = "[If (Not lds_is_real) (store_full k npass), Else (store_half k npass)]"
  from assms have body: "body = pass_load k npass @ ?T @ ?B @ ?tail"
    by (simp add: pass_body_def pass_butterfly_store_def large_twiddles_multiply_def Let_def
        split: if_splits)
  have neT: "?T \<noteq> Else e # rest" for e rest
    unfolding pass_twiddle_def Let_def
    by (simp add: add_work_not_Else [OF plain_twiddle])
  have neB: "?B \<noteq> Else e # rest" for e rest
    by (rule add_work_not_Else) (rule plain_butterfly)
  have ne_rest: "?T @ ?B @ ?tail \<noteq> Else e # rest" for e rest
    by (intro append_not_Else neT neB) simp
  have evT: "events (real_path ?T) = []"
    unfolding pass_twiddle_def Let_def
    using events_add_work [OF plain_twiddle events_twiddle]
    by (simp add: events_def)
  have evB: "events (real_path ?B) = []"
    by (simp add: events_add_work [OF plain_butterfly events_butterfly])
  have load: "real_path (pass_load k npass) = [LineBreak, CommentLines, SyncThreads]"
    by (simp add: pass_load_def Let_def)
  have tail: "real_path ?tail = real_path (store_half k npass)"
    by simp
  have "real_path body = real_path (pass_load k npass) @ real_path ?T @ real_path ?B
                           @ real_path ?tail"
    unfolding body
    by (simp add: real_path_append ne_rest append_not_Else neB)
  then have "events (real_path body) =
      events [LineBreak, CommentLines, SyncThreads] @ events (real_path ?T)
      @ events (real_path ?B) @ events (real_path (store_half k npass))"
    unfolding load tail by (simp only: events_append)
  moreover have "events [LineBreak, CommentLines, SyncThreads] = [Barrier]"
    by (simp add: events_def)
  ultimately show ?thesis
    unfolding evT evB by simp
qed

lemma barriers_ok_stores_X:
  "barriers_ok (x, y) (replicate a StoreX @ Barrier # es) = barriers_ok (False, False) es"
  by (induction a arbitrary: x) simp_all

lemma barriers_ok_stores_Y:
  "barriers_ok (False, y) (replicate a StoreY @ Barrier # es) = barriers_ok (False, False) es"
  by (induction a arbitrary: y) simp_all

lemma barriers_ok_loads:
  "barriers_ok (False, False) (replicate b LoadX @ Barrier # es) = barriers_ok (False, False) es"
  "barriers_ok (False, False) (replicate b LoadY @ Barrier # es) = barriers_ok (False, False) es"
  by (induction b) simp_all

text \<open>
  C6. In every pass but the last, the statements a thread passes when \<open>lds_is_real\<close> is
  true touch the real-only LDS in this order: the barrier that opens the pass, the
  stores of the X components, a barrier, the loads of the X components for the next
  pass, a barrier, the stores of the Y components, a barrier, the loads of the Y
  components, a barrier. So a barrier stands between the X stores and the Y stores and
  before the loads of each component, and the check \<open>barriers_ok\<close> holds. The numbers
  of stores and loads are those of the generated code for a length below \<open>2 ^ 23\<close>,
  where the \<open>float\<close> quotient \<open>height\<close> of the source has the floor and the integrality
  of the exact quotient.
\<close>

theorem half_lds_barriers:
  assumes "npass + 1 < length (factors k)" and "pass_body k npass = Inr body"
    and "unat (length_k k) < 2 ^ 23"
  shows "events (real_path body) =
           [Barrier]
           @ replicate (work_items k (factors k ! npass) (height_of k (factors k ! npass))
                        * unat (factors k ! npass)) StoreX
           @ [Barrier]
           @ replicate (work_items k (factors k ! (npass + 1))
                          (height_of k (factors k ! (npass + 1)))
                        * unat (factors k ! (npass + 1))) LoadX
           @ [Barrier]
           @ replicate (work_items k (factors k ! npass) (height_of k (factors k ! npass))
                        * unat (factors k ! npass)) StoreY
           @ [Barrier]
           @ replicate (work_items k (factors k ! (npass + 1))
                          (height_of k (factors k ! (npass + 1)))
                        * unat (factors k ! (npass + 1))) LoadY
           @ [Barrier]
         \<and> barriers_ok (False, False) (events (real_path body))"
  unfolding events_pass_body [OF assms(2)] events_store_half [OF assms(1)]
  by (simp add: barriers_ok_stores_X barriers_ok_stores_Y barriers_ok_loads)


theorem half_lds_barriers_witness:
  "unat (length_k kernel_64_half) = 64
   \<and> map_sum id (events \<circ> real_path) (pass_body kernel_64_half 0) =
     Inr [Barrier, StoreX, StoreX, StoreX, StoreX, Barrier, LoadX, LoadX, LoadX, LoadX,
          Barrier, StoreY, StoreY, StoreY, StoreY, Barrier, LoadY, LoadY, LoadY, LoadY,
          Barrier]
   \<and> map_sum id (barriers_ok (False, False) \<circ> events \<circ> real_path)
         (pass_body kernel_64_half 0) = Inr True"
proof -
  define body where "body = pass_load kernel_64_half 0 @ pass_twiddle kernel_64_half 0
                              @ pass_butterfly_store kernel_64_half 0"
  have f: "factors kernel_64_half = [4, 4, 4]"
    by (simp add: kernel_64_half_def kernel_64_def)
  have pb: "pass_body kernel_64_half 0 = Inr body"
    by (simp add: pass_body_def body_def f) (simp add: kernel_64_half_def kernel_64_def)
  have n: "0 + 1 < length (factors kernel_64_half)"
    by (simp add: f)
  have wi: "work_items kernel_64_half 4 (height_of kernel_64_half 4) = 1"
    by (simp add: work_items_def iheight_of_def extra_work_def height_of_def quotient_def
        kernel_64_half_def kernel_64_def)
  have four: "replicate 4 x = [x, x, x, x]" for x :: lds_event
    by (simp add: numeral_eq_Suc)
  have lt: "unat (length_k kernel_64_half) < 2 ^ 23"
    by (simp add: kernel_64_half_def kernel_64_def)
  have l: "unat (length_k kernel_64_half) = 64"
    by (simp add: kernel_64_half_def kernel_64_def)
  from half_lds_barriers [OF n pb lt] show ?thesis
    by (simp add: pb f wi four l)
qed
























lemma eval_tid:
  "eval env (Add (Add thread (Lit dt)) (Lit ht)) = Some (env ''thread'' + unat dt + unat ht)"
  by (simp add: thread_def)






section \<open>Properties of the random test input\<close>

subsection \<open>Row-major iteration\<close>

lemma all_indices_zeros:
  assumes "0 \<notin> set us"
  shows "all_indices us = replicate (length us) 0 # indices_after (replicate (length us) 0) us"
  using assms
proof (induction us)
  case Nil
  show ?case by simp
next
  case (Cons u us)
  then have u: "0 < unat u" and us: "0 \<notin> set us"
    by (simp_all add: unat_gt_0)
  from u have "[0..<unat u] = 0 # [Suc 0..<unat u]"
    by (simp add: upt_conv_Cons)
  with Cons.IH [OF us] show ?case
    by simp
qed

lemma less_minus_one_iff:
  fixes i u :: size_t
  assumes "unat i < unat u"
  shows "i < u - 1 \<longleftrightarrow> Suc (unat i) < unat u"
proof -
  from assms have "u \<noteq> 0" by auto
  then have "unat (u - 1) = unat u - 1" by (rule unat_minus_one)
  then show ?thesis
    by (auto simp: word_less_nat_alt)
qed

lemma unat_plus_one:
  fixes i u :: size_t
  assumes "Suc (unat i) < unat u"
  shows "unat (i + 1) = Suc (unat i)"
proof -
  have "unat u < 2 ^ LENGTH(64)" by (rule unsigned_less)
  then have "unat u < 2 ^ 64" by simp
  with assms have "unat i + 1 < 2 ^ 64" by simp
  then show ?thesis
    by (simp add: unat_word_ariths)
qed

lemma zeros_below:
  fixes us :: "size_t list"
  assumes "0 \<notin> set us"
  shows "list_all2 (<) (replicate (length us) 0) us"
  using assms by (induction us) (simp_all add: word_gt_0)

lemma below_nonzero:
  fixes us :: "size_t list"
  assumes "list_all2 (<) index us"
  shows "0 \<notin> set us"
  using assms by (induction index us rule: list_all2_induct) auto

lemma indices_after_step:
  assumes "list_all2 (<) index len"
  shows "(indices_after index len = [] \<longrightarrow>
            increment_rowmajor index len = (replicate (length index) 0, False))
       \<and> (\<forall>nxt rest. indices_after index len = nxt # rest \<longrightarrow>
            increment_rowmajor index len = (nxt, True)
            \<and> list_all2 (<) nxt len \<and> indices_after nxt len = rest)"
  using assms
proof (induction index len rule: list_all2_induct)
  case Nil
  show ?case by simp
next
  case (Cons i index u us)
  let ?z = "replicate (length index) (0 :: size_t)"
  from Cons.hyps have iu: "unat i < unat u" and len: "length index = length us"
    by (simp_all add: word_less_nat_alt list_all2_lengthD)
  from Cons.hyps(2) have us0: "0 \<notin> set us"
    by (rule below_nonzero)
  show ?case
  proof (cases "indices_after index us")
    case (Cons nxt' rest')
    with Cons.IH have inc: "increment_rowmajor index us = (nxt', True)"
      and v: "list_all2 (<) nxt' us" and a: "indices_after nxt' us = rest'"
      by simp_all
    from Cons inc v a Cons.hyps(1) show ?thesis
      by simp
  next
    case Nil
    with Cons.IH have inc: "increment_rowmajor index us = (?z, False)"
      by simp
    show ?thesis
    proof (cases "Suc (unat i) < unat u")
      case True
      with less_minus_one_iff [OF iu] have lt: "i < u - 1" by simp
      from True have un: "unat (i + 1) = Suc (unat i)"
        by (rule unat_plus_one)
      have i1: "of_nat (Suc (unat i)) = i + 1"
        by simp
      from True have upt: "[Suc (unat i)..<unat u] = Suc (unat i) # [Suc (Suc (unat i))..<unat u]"
        by (simp add: upt_conv_Cons)
      have all: "all_indices us = ?z # indices_after ?z us"
        using all_indices_zeros [OF us0] len by simp
      have zv: "list_all2 (<) ?z us"
        using zeros_below [OF us0] len by simp
      from un True have v1: "i + 1 < u"
        by (simp add: word_less_nat_alt)
      from un v1 have un': "unat (1 + i) = Suc (unat i)" and v1': "1 + i < u"
        by (simp_all add: add.commute)
      from Nil inc lt upt all i1 un' zv v1' len show ?thesis
        by (simp add: increment_base_def)
    next
      case False
      with iu have eq: "Suc (unat i) = unat u" by simp
      with less_minus_one_iff [OF iu] have "\<not> i < u - 1" by simp
      with Nil inc eq show ?thesis
        by (simp add: increment_base_def)
    qed
  qed
qed


lemma fill_spec_Cons:
  "fill_spec put stride i_base (index # indices) gen input =
     (case put (compute_index index stride i_base) gen input of
        (gen', input') \<Rightarrow> fill_spec put stride i_base indices gen' input')"
  by (simp add: fill_spec_def split: prod.split)

lemma fill_spec_Nil: "fill_spec put stride i_base [] gen input = (gen, input)"
  by (simp add: fill_spec_def)

lemma fill_loop_spec:
  assumes "list_all2 (<) index len" and "length (indices_after index len) < fuel"
  shows "fill_loop fuel put len stride i_base index gen input =
           Some (snd (fill_spec put stride i_base (index # indices_after index len) gen input))"
  using assms
proof (induction fuel arbitrary: index gen input)
  case 0
  then show ?case by simp
next
  case (Suc fuel)
  obtain gen' input' where p: "put (compute_index index stride i_base) gen input = (gen', input')"
    by (cases "put (compute_index index stride i_base) gen input")
  show ?case
  proof (cases "indices_after index len")
    case Nil
    with indices_after_step [OF Suc.prems(1)]
    have "increment_rowmajor index len = (replicate (length index) 0, False)"
      by simp
    with Nil p show ?thesis
      by (simp add: fill_spec_Cons fill_spec_Nil)
  next
    case (Cons nxt rest)
    with indices_after_step [OF Suc.prems(1)]
    have inc: "increment_rowmajor index len = (nxt, True)"
      and v: "list_all2 (<) nxt len" and a: "indices_after nxt len = rest"
      by simp_all
    from Cons Suc.prems(2) a have "length (indices_after nxt len) < fuel"
      by simp
    from Suc.IH [OF v this, of gen' input'] a
    have "fill_loop fuel put len stride i_base nxt gen' input' =
            Some (snd (fill_spec put stride i_base (nxt # rest) gen' input'))"
      by simp
    with Cons p inc show ?thesis
      by (simp add: fill_spec_Cons [of put stride i_base index])
  qed
qed

lemma partition_indices_after:
  assumes "s < e" and "0 \<notin> set us"
  shows "partition_indices (s # replicate (length us) 0) (e # us) =
           (s # replicate (length us) 0)
           # indices_after (s # replicate (length us) 0) (e # us)"
proof -
  from assms(1) have "unat s < unat e" by (simp add: word_less_nat_alt)
  then have "[unat s..<unat e] = unat s # [Suc (unat s)..<unat e]"
    by (simp add: upt_conv_Cons)
  with all_indices_zeros [OF assms(2)] show ?thesis
    by (simp add: partition_indices_def)
qed

lemma length_concat_const:
  assumes "\<And>j. length (f j) = n"
  shows "length (concat (map f js)) = length js * n"
  using assms by (induction js) simp_all

lemma length_all_indices: "length (all_indices us) = prod_list (map unat us)"
  by (induction us) (simp_all add: length_concat_const)

lemma length_partition_indices:
  "length (partition_indices (s # z) (e # us)) = (unat e - unat s) * prod_list (map unat us)"
  by (simp add: partition_indices_def length_concat_const length_all_indices)


subsection \<open>Partitions\<close>

lemma unat_of_nat_mult:
  fixes p :: size_t
  assumes "k * unat p \<le> unat (len :: size_t)"
  shows "unat (of_nat k * p) = k * unat p"
proof (cases "p = 0")
  case True
  then show ?thesis by simp
next
  case False
  then have "0 < unat p" by (simp add: unat_gt_0)
  have "unat len < 2 ^ LENGTH(64)" by (rule unsigned_less)
  with assms have lt: "k * unat p < 2 ^ 64" by simp
  with \<open>0 < unat p\<close> have "k < 2 ^ 64"
    by (metis le_less_trans mult.right_neutral mult_le_mono2 Suc_leI One_nat_def)
  then have "unat (of_nat k :: size_t) = k"
    by (simp add: unat_of_nat)
  with lt show ?thesis
    by (simp add: unat_word_ariths)
qed

lemma partition_base_valid:
  assumes "len \<noteq> 0" and "c \<noteq> 0"
  shows "\<exists>parts. partition_base len c = Inr parts \<and> parts \<noteq> []
           \<and> (\<forall>x \<in> set parts. fst x < snd x \<and> snd x \<le> len)"
proof -
  define n where "n = min len c"
  define p where "p = len div n"
  define ret where "ret = map (\<lambda>i. (of_nat i * p, of_nat i * p + p)) [0..<unat n]"
  from assms have n0: "n \<noteq> 0"
    by (simp add: n_def min_def)
  have nle: "n \<le> len"
    unfolding n_def by (rule min.cobounded1)
  with n0 have un: "0 < unat n" "unat n \<le> unat len"
    by (simp_all add: unat_gt_0 word_le_nat_alt)
  have up: "unat p = unat len div unat n"
    by (simp add: p_def unat_div)
  with un have p1: "0 < unat p"
    by (simp add: div_greater_zero_iff)
  have np: "unat n * unat p \<le> unat len"
    by (simp add: up)
  have bound: "k * unat p \<le> unat len" if "k \<le> unat n" for k
    using that np by (meson le_trans mult_le_mono1)
  have ret_ok: "fst x < snd x \<and> snd x \<le> len" if "x \<in> set ret" for x
  proof -
    from that obtain i where i: "i < unat n" and x: "x = (of_nat i * p, of_nat i * p + p)"
      by (auto simp: ret_def)
    have snd_eq: "of_nat i * p + p = of_nat (Suc i) * p"
      by (simp add: algebra_simps)
    from i have "unat (of_nat i * p) = i * unat p" "unat (of_nat (Suc i) * p) = Suc i * unat p"
      by (simp_all only: unat_of_nat_mult [OF bound] less_imp_le Suc_leI)
    with p1 bound [of "Suc i"] i show ?thesis
      unfolding x snd_eq by (simp add: word_less_nat_alt word_le_nat_alt)
  qed
  from un have ne: "ret \<noteq> []" by (simp add: ret_def)
  have last_ok: "fst (last ret) < len"
  proof -
    from ne ret_ok [of "last ret"] have "fst (last ret) < snd (last ret)" "snd (last ret) \<le> len"
      by simp_all
    then show ?thesis by simp
  qed
  have pb: "partition_base len c = Inr (butlast ret @ [(fst (last ret), len)])"
    using n0 by (simp add: partition_base_def Let_def n_def [symmetric] p_def [symmetric]
        ret_def [symmetric])
  have "\<forall>x \<in> set (butlast ret @ [(fst (last ret), len)]). fst x < snd x \<and> snd x \<le> len"
    using ret_ok last_ok by (auto dest: in_set_butlastD)
  with pb show ?thesis by auto
qed

lemma compute_partition_count_None: "compute_partition_count None len = 1"
  by (simp add: compute_partition_count_def)

lemma partition_base_one:
  assumes "len \<noteq> 0"
  shows "partition_base len 1 = Inr [(0, len)]"
proof -
  from assms have "min len 1 = 1"
    by (simp add: min_def word_le_nat_alt unat_gt_0 Suc_leI) (metis Suc_leI le_antisym unat_1 unat_gt_0 word_unat_eq_iff One_nat_def)
  with assms show ?thesis
    by (simp add: partition_base_def Let_def)
qed


subsection \<open>The loops over partitions and batches\<close>

lemma partitions_loop_spec:
  assumes "list_all (covered fuel) partitions"
  shows "partitions_loop fuel put stride i_base partitions input =
           Some (foldl (\<lambda>input (first, second).
                   snd (fill_spec put stride i_base (partition_indices first second)
                          (mt19937_seed (compute_index first stride i_base)) input))
                 input partitions)"
  using assms
proof (induction partitions arbitrary: input)
  case Nil
  show ?case by simp
next
  case (Cons x partitions)
  obtain first second where x: "x = (first, second)" by (cases x)
  from Cons.prems have cx: "covered fuel x" and rest: "list_all (covered fuel) partitions"
    by simp_all
  from cx x have c: "list_all2 (<) first second"
    "length (indices_after first second) < fuel"
    "partition_indices first second = first # indices_after first second"
    by (simp_all add: covered_def)
  from fill_loop_spec [OF c(1,2)] c(3)
  have "fill_loop fuel put second stride i_base first
          (mt19937_seed (compute_index first stride i_base)) input =
        Some (snd (fill_spec put stride i_base (partition_indices first second)
                (mt19937_seed (compute_index first stride i_base)) input))"
    by simp
  with Cons.IH [OF rest] x show ?case
    by simp
qed

lemma batch_loop_spec:
  assumes "list_all (covered fuel) partitions"
  shows "batch_loop fuel put stride idist' partitions n i_base input =
           Some (foldl (\<lambda>input b.
                   foldl (\<lambda>input (first, second).
                      snd (fill_spec put stride (i_base + of_nat b * idist')
                             (partition_indices first second)
                             (mt19937_seed (compute_index first stride
                                (i_base + of_nat b * idist'))) input))
                     input partitions)
                 input [0..<n])"
proof (induction n arbitrary: i_base input)
  case 0
  show ?case by simp
next
  case (Suc n)
  have upt: "[0..<Suc n] = 0 # map Suc [0..<n]"
    by (simp add: upt_conv_Cons map_Suc_upt del: upt_Suc)
  have shift: "i_base + (1 + of_nat b) * idist' = i_base + idist' + of_nat b * idist'" for b
    by (simp add: algebra_simps)
  show ?case
    unfolding upt
    by (simp add: partitions_loop_spec [OF assms] Suc.IH foldl_map shift del: upt_Suc)
qed


lemma partition_rowmajor_covered:
  assumes len: "len = l0 # ls" and nz: "0 \<notin> set len"
    and c: "compute_partition_count omp len \<noteq> 0"
    and fuel: "prod_list (map unat len) \<le> fuel"
  shows "\<exists>partitions. partition_rowmajor omp len = Inr partitions \<and> partitions \<noteq> []
           \<and> list_all (covered fuel) partitions"
proof -
  from nz len have l0: "l0 \<noteq> 0" and ls: "0 \<notin> set ls" by auto
  from partition_base_valid [OF l0 c] obtain parts where
    pb: "partition_base l0 (compute_partition_count omp len) = Inr parts" and ne: "parts \<noteq> []"
    and ok: "\<forall>x \<in> set parts. fst x < snd x \<and> snd x \<le> l0"
    by blast
  let ?g = "\<lambda>(first, second). (first # replicate (length len - 1) 0, second # tl len)"
  have pr: "partition_rowmajor omp len = Inr (map ?g parts)"
    using pb len by (simp add: partition_rowmajor_def ebind_def)
  have "covered fuel (?g x)" if "x \<in> set parts" for x
  proof -
    obtain s e where x: "x = (s, e)" by (cases x)
    with ok that have se: "s < e" and el: "e \<le> l0" by auto
    let ?first = "s # replicate (length ls) 0"
    have g: "?g x = (?first, e # ls)" using x len by simp
    have v: "list_all2 (<) ?first (e # ls)"
      using se zeros_below [OF ls] by simp
    have pi: "partition_indices ?first (e # ls) = ?first # indices_after ?first (e # ls)"
      by (rule partition_indices_after [OF se ls])
    have "length (partition_indices ?first (e # ls)) = (unat e - unat s) * prod_list (map unat ls)"
      by (rule length_partition_indices)
    also have "\<dots> \<le> unat l0 * prod_list (map unat ls)"
      using el by (simp add: word_le_nat_alt mult_le_mono1 le_trans [OF diff_le_self])
    also have "\<dots> = prod_list (map unat len)"
      using len by simp
    finally have "length (partition_indices ?first (e # ls)) \<le> fuel"
      using fuel by simp
    with pi have "length (indices_after ?first (e # ls)) < fuel"
      by simp
    with v pi show ?thesis
      unfolding g covered_def by simp
  qed
  then have "list_all (covered fuel) (map ?g parts)"
    by (simp add: list_all_iff)
  with pr ne show ?thesis by simp
qed

lemma partition_rowmajor_None:
  assumes "len = l0 # ls" and "0 \<notin> set len"
  shows "partition_rowmajor None len = Inr [(replicate (length len) 0, len)]"
proof -
  from assms have "l0 \<noteq> 0" by auto
  from partition_base_one [OF this] assms(1) show ?thesis
    by (simp add: partition_rowmajor_def compute_partition_count_None ebind_def)
qed

text \<open>
  C8, as the code has it. For lengths of one to three dimensions, none of them zero, a
  stride for every dimension, the buffers of the array type present, fewer than \<open>2 ^ 31\<close>
  batches and a partition count that is not zero, \<open>set_input\<close> returns when its loops may
  run as many iterations as a batch has elements, and what it returns is what
  \<open>set_input_spec\<close> says: in every batch and for every partition of the lengths,
  one generator is seeded with the linearized index of the first element of the
  partition, and the elements of the partition take the draws of that generator one
  after the other in row-major order. Without OpenMP there is one partition, the whole
  batch; with it the partitions depend on the number of processors.
\<close>

theorem set_input_seeded_per_partition:
  assumes "length len = 1 \<or> length len = 2 \<or> length len = 3"
    and "0 \<notin> set len"
    and "length len \<le> length istride'"
    and "compute_partition_count omp len \<noteq> 0"
    and "unat nbatch' < 2 ^ 31"
    and "itype' \<noteq> rocfft_array_type_unset"
    and "nbuffer itype' \<le> length input"
    and "prod_list (map unat len) \<le> fuel"
  shows "\<exists>partitions.
           partition_rowmajor omp len = Inr partitions \<and> partitions \<noteq> []
           \<and> (omp = None \<longrightarrow> partitions = [(replicate (length len) 0, len)])
           \<and> set_input fuel fdiv ltr omp input itype' len istride' idist' nbatch' =
               Some (Inr (set_input_spec (put_element fdiv ltr itype')
                            (take (length len) istride') idist' partitions
                            (unat nbatch') input))"
proof -
  from assms(1) obtain l0 ls where len: "len = l0 # ls"
    by (cases len) auto
  from partition_rowmajor_covered [OF len assms(2,4,8)] obtain partitions where
    pr: "partition_rowmajor omp len = Inr partitions" and ne: "partitions \<noteq> []"
    and cov: "list_all (covered fuel) partitions"
    by blast
  have none: "omp = None \<longrightarrow> partitions = [(replicate (length len) 0, len)]"
    using partition_rowmajor_None [OF len assms(2)] pr by auto
  from assms(5) have nb: "\<not> 2 ^ 31 \<le> unat nbatch'" by simp
  have "set_input fuel fdiv ltr omp input itype' len istride' idist' nbatch' =
          Some (Inr (set_input_spec (put_element fdiv ltr itype')
                       (take (length len) istride') idist' partitions (unat nbatch') input))"
    using assms(1,3,6,7) pr nb
    by (simp add: set_input_def set_input_dim_def batch_loop_spec [OF cov] set_input_spec_def
        del: upt_Suc)
  with pr ne none show ?thesis by blast
qed

subsection \<open>Draws of the engine\<close>

lemma mt_word_numeral:
  "mt_word s (numeral n) =
     (let prev = mt_word s (pred_numeral n)
      in word_of_nat ((1812433253 * unat (prev XOR drop_bit 30 prev) + numeral n) mod 4294967296))"
proof -
  have norm: "(word_of_nat (k mod 4294967296) :: 32 word) = word_of_nat k" for k
  proof -
    have "(word_of_nat (k mod 2 ^ 32) :: 32 word) = word_of_nat k"
      by (simp add: word_of_nat_eq_iff take_bit_eq_mod)
    then show ?thesis by simp
  qed
  have "mt_word s (Suc (pred_numeral n)) =
     (let prev = mt_word s (pred_numeral n)
      in 1812433253 * (prev XOR drop_bit 30 prev) + of_nat (Suc (pred_numeral n)))"
    by (rule mt_word.simps)
  moreover have "Suc (pred_numeral n) = numeral n"
    by (simp add: numeral_eq_Suc)
  ultimately have "mt_word s (numeral n) =
     (let prev = mt_word s (pred_numeral n)
      in 1812433253 * (prev XOR drop_bit 30 prev) + numeral n)"
    by (simp only: of_nat_numeral)
  then show ?thesis
    by (simp add: Let_def norm)
qed

lemma mt_word_0_397: "mt_word 0 397 = 145341901"
  by (simp add: mt_word_numeral)

lemma mt_word_0_398: "mt_word 0 398 = 3995441263"
  by (subst mt_word_numeral) (simp add: mt_word_0_397)

lemma mt_word_1_397: "mt_word 1 397 = 2864168489"
  by (simp add: mt_word_numeral)

lemma mt19937_seed_nth: "i < 624 \<Longrightarrow> mt19937_seed sd ! i = mt_word (ucast sd) i"
  by (simp add: mt19937_seed_def)

lemma first_draw:
  "fst (mt19937_next (mt19937_seed sd)) =
     temper (twist (mt_word (ucast sd) 0) (mt_word (ucast sd) 1) (mt_word (ucast sd) 397))"
  by (simp add: mt19937_next_def Let_def mt19937_seed_nth del: mt_word.simps)

lemma second_draw:
  "fst (mt19937_next (snd (mt19937_next (mt19937_seed sd)))) =
     temper (twist (mt_word (ucast sd) 1) (mt_word (ucast sd) 2) (mt_word (ucast sd) 398))"
proof -
  have len: "length (mt19937_seed sd) = 624"
    by (simp add: mt19937_seed_def)
  have nth: "(tl (mt19937_seed sd) @ [x]) ! i = mt_word (ucast sd) (Suc i)" if "i < 623" for i x
  proof -
    from that len have "i < length (tl (mt19937_seed sd))" by simp
    then have "(tl (mt19937_seed sd) @ [x]) ! i = tl (mt19937_seed sd) ! i"
      by (simp add: nth_append)
    also have "\<dots> = mt19937_seed sd ! Suc i"
      using that len by (simp add: nth_tl)
    also have "\<dots> = mt_word (ucast sd) (Suc i)"
      using that by (simp add: mt19937_seed_nth del: mt_word.simps)
    finally show ?thesis .
  qed
  have "(tl (mt19937_seed sd) @ [x]) ! 0 = mt_word (ucast sd) 1"
    "(tl (mt19937_seed sd) @ [x]) ! 1 = mt_word (ucast sd) 2"
    "(tl (mt19937_seed sd) @ [x]) ! 397 = mt_word (ucast sd) 398" for x
    using nth [of 0 x] nth [of 1 x] nth [of 397 x]
    by (simp_all del: mt_word.simps add: numeral_2_eq_2 [symmetric])
  then show ?thesis
    by (simp add: mt19937_next_def Let_def del: mt_word.simps)
qed

lemma mt_word_small:
  "mt_word 0 (Suc 0) = 1" "mt_word 0 2 = 1812433255" "mt_word 1 (Suc 0) = 1812433254"
  by (simp_all add: numeral_2_eq_2 Let_def)

lemma temper_twist_values:
  "temper (twist 0 1 145341901) = 2357136044"
  "temper (twist 1 1812433255 3995441263) = 2546248239"
  "temper (twist 1 1812433254 2864168489) = 1791095845"
  by (simp_all add: temper_def twist_def Let_def)

lemma draws_seed_0:
  "fst (mt19937_next (mt19937_seed 0)) = 2357136044"
  "fst (mt19937_next (snd (mt19937_next (mt19937_seed 0)))) = 2546248239"
proof -
  have "fst (mt19937_next (mt19937_seed 0)) = temper (twist 0 1 145341901)"
    unfolding first_draw by (simp add: mt_word_small mt_word_0_397 del: mt_word.simps(2))
  then show "fst (mt19937_next (mt19937_seed 0)) = 2357136044"
    by (simp only: temper_twist_values)
  have "fst (mt19937_next (snd (mt19937_next (mt19937_seed 0)))) =
          temper (twist 1 1812433255 3995441263)"
    unfolding second_draw by (simp add: mt_word_small mt_word_0_398 del: mt_word.simps(2))
  then show "fst (mt19937_next (snd (mt19937_next (mt19937_seed 0)))) = 2546248239"
    by (simp only: temper_twist_values)
qed

lemma draws_seed_1:
  "fst (mt19937_next (mt19937_seed 1)) = 1791095845"
proof -
  have "fst (mt19937_next (mt19937_seed 1)) = temper (twist 1 1812433254 2864168489)"
    unfolding first_draw by (simp add: mt_word_small mt_word_1_397 del: mt_word.simps(2))
  then show ?thesis
    by (simp only: temper_twist_values)
qed

subsection \<open>Two requests\<close>

lemma all_indices_2: "all_indices [2] = [[0], [1]]"
  by (simp add: upt_conv_Cons)

lemma partition_indices_2x2:
  "partition_indices [0, 0] [2, 2] = [[0, 0], [0, 1], [1, 0], [1, 1]]"
  by (simp add: partition_indices_def all_indices_2 upt_conv_Cons)

lemma partition_rowmajor_omp:
  "partition_rowmajor (Some 4) [4096, 2] =
     Inr [([0, 0], [1024, 2]), ([1024, 0], [2048, 2]), ([2048, 0], [3072, 2]),
          ([3072, 0], [4096, 2])]"
  by (simp add: partition_rowmajor_def partition_base_def compute_partition_count_def
      count_iters_def ebind_def Let_def upt_conv_Cons)

theorem set_input_seeded_per_partition_witness:
  "partition_rowmajor None [2, 2] = Inr [([0, 0], [2, 2])]
   \<and> partition_indices [0, 0] [2, 2] = [[0, 0], [0, 1], [1, 0], [1, 1]]
   \<and> set_input 4 (\<lambda>a b. a) True None [\<lambda>i. 0] rocfft_array_type_complex_interleaved
         [2, 2] [2, 1] 4 2 =
       Some (Inr (set_input_spec (put_interleaved (\<lambda>a b. a)) [2, 1] 4 [([0, 0], [2, 2])] 2
                    [\<lambda>i. (0 :: 32 word)]))
   \<and> partition_rowmajor (Some 4) [4096, 2] =
       Inr [([0, 0], [1024, 2]), ([1024, 0], [2048, 2]), ([2048, 0], [3072, 2]),
            ([3072, 0], [4096, 2])]"
proof -
  have pr: "partition_rowmajor None [2, 2] = Inr [([0, 0], [2, 2])]"
    using partition_rowmajor_None [of "[2, 2]" 2 "[2]"] by (simp add: numeral_2_eq_2)
  from set_input_seeded_per_partition [of "[2, 2]" "[2, 1]" None 2
      rocfft_array_type_complex_interleaved "[\<lambda>i. (0 :: 32 word)]" 4 "\<lambda>a b. a" True 4]
  have "set_input 4 (\<lambda>a b. a) True None [\<lambda>i. 0] rocfft_array_type_complex_interleaved
         [2, 2] [2, 1] 4 2 =
       Some (Inr (set_input_spec (put_interleaved (\<lambda>a b. a)) [2, 1] 4 [([0, 0], [2, 2])] 2
                    [\<lambda>i. (0 :: 32 word)]))"
    by (simp add: compute_partition_count_None put_element_def)
  with pr partition_indices_2x2 partition_rowmajor_omp show ?thesis
    by simp
qed

text \<open>
  C8 as stated fails for the second of two real values: the generator is seeded once,
  with the index 0 of the first element, and the element of index 1 takes its second
  draw, 2546248239, where a generator seeded with the index 1 draws 1791095845 first.
\<close>

theorem set_input_seed_counterexample:
  "map_option (map_sum id (\<lambda>input. map (input ! 0) [0, 1])) two_reals =
     Some (Inr [2357136044, 2546248239])
   \<and> fst (mt19937_next (mt19937_seed 0)) = 2357136044
   \<and> fst (mt19937_next (snd (mt19937_next (mt19937_seed 0)))) = 2546248239
   \<and> fst (mt19937_next (mt19937_seed 1)) = 1791095845"
proof -
  have pr: "partition_rowmajor None [2] = Inr [([0], [2])]"
    using partition_rowmajor_None [of "[2]" 2 "[]"] by simp
  have s1: "two_reals =
          map_option Inr (batch_loop 2 (put_real (\<lambda>a b. a)) [1] 2 [([0], [2])] 1 0 [\<lambda>i. 0])"
    by (simp add: two_reals_def set_input_def set_input_dim_def pr put_element_def)
  have s2: "batch_loop (Suc (Suc 0)) (put_real (\<lambda>a b. a)) [1] 2 [([0], [2])] (Suc 0) 0
              [\<lambda>i. (0 :: 32 word)] =
          Some [(\<lambda>i. 0)(0 := fst (mt19937_next (mt19937_seed 0)),
                          1 := fst (mt19937_next (snd (mt19937_next (mt19937_seed 0)))))]"
    by (simp add: put_real_def compute_index_def increment_base_def case_prod_unfold Let_def)
  from s1 s2 have "two_reals =
          Some (Inr [(\<lambda>i. 0)(0 := fst (mt19937_next (mt19937_seed 0)),
                              1 := fst (mt19937_next (snd (mt19937_next (mt19937_seed 0)))))])"
    by (simp add: numeral_2_eq_2)
  then have v: "two_reals = Some (Inr [(\<lambda>i. 0)(0 := 2357136044, 1 := 2546248239)])"
    by (simp only: draws_seed_0)
  show ?thesis
    unfolding v by (simp add: draws_seed_0 draws_seed_1)
qed


end
